theory Spec2Isabelle
  imports Main
begin

section \<open>The storage layer of libswift: \<^verbatim>\<open>storage.cpp\<close>\<close>

text \<open>
  This theory embeds \<^verbatim>\<open>Storage\<close> and \<^verbatim>\<open>StorageFile\<close> of \<^verbatim>\<open>storage.cpp\<close>.
  Conventions:
  \<^item> \<^verbatim>\<open>int64_t\<close>, \<^verbatim>\<open>ssize_t\<close> and \<^verbatim>\<open>int\<close> values are \<open>int\<close>. Conversions to \<^verbatim>\<open>size_t\<close>, which are
    defined (modulo \<open>2 ^ 64\<close> on an LP64 host), are written out.
  \<^item> The sizes of the files come from the manifest, which is input. The \<^verbatim>\<open>int64_t\<close> sums
    computed from them (the \<^verbatim>\<open>end_\<close> of a \<^verbatim>\<open>StorageFile\<close>, the running offset of \<^verbatim>\<open>ParseSpec\<close>)
    are written with their wrap-around, \<open>s64\<close>: signed overflow is undefined behaviour in
    C++, and two's complement wrap-around is what the compiled additions do. The other
    sums, on the offsets and counts of the caller, are taken to stay in range.
  \<^item> \<^verbatim>\<open>size_t\<close> byte counts are \<open>nat\<close>; a buffer is the list of the bytes at the pointer.
  \<^item> A function that returns a status and mutates the object or the disk returns the
    triple of its result, the new \<^verbatim>\<open>Storage\<close> and the new file system.
    \<^verbatim>\<open>errno\<close> is not modelled: failure is the negative result.
  \<^item> A byte count that the source stores in an \<^verbatim>\<open>int\<close> is taken to fit it.
  \<^item> \<^verbatim>\<open>swift.h\<close> and \<^verbatim>\<open>compat.h\<close> are not among the sources. What \<^verbatim>\<open>storage.cpp\<close> uses of them is
    modelled from the spec, and marked so, or is a parameter (\<^verbatim>\<open>MULTIFILE_MAX_LINE\<close>).
\<close>

subsection \<open>The host: a POSIX file system\<close>

text \<open>
  Regular files are a map from path to content, directories a set of paths, and the
  descriptor table a list of paths: descriptor \<open>k\<close> is the \<open>k\<close>-th file opened. Nothing
  in \<^verbatim>\<open>storage.cpp\<close> removes or renames a file, so a path identifies a file for good.
  The model has no permissions. A positional write fails on a bad descriptor, a negative
  offset or a count beyond the buffer. Otherwise it transfers the bytes the host accepts,
  which may be fewer than asked for (a short write): \<open>wlen fs p off n\<close> bounds the count
  that a write of \<open>n\<close> bytes at offset \<open>off\<close> of the file \<open>p\<close> transfers.
\<close>

record filesys =
  files :: "string \<rightharpoonup> string"
  dirs :: "string set"
  fdtab :: "string list"
  wlen :: "string \<Rightarrow> nat \<Rightarrow> nat \<Rightarrow> nat"

definition NUL :: char where
  "NUL = CHR 0x00"

primrec rfind_char :: "char \<Rightarrow> string \<Rightarrow> nat option" where
  "rfind_char c [] = None"
| "rfind_char c (x # xs) =
     (case rfind_char c xs of
        Some i \<Rightarrow> Some (Suc i)
      | None \<Rightarrow> if x = c then Some 0 else None)"

text \<open>\<^verbatim>\<open>s.find(sub, pos)\<close> of \<^verbatim>\<open>std::string\<close>; \<open>None\<close> is \<^verbatim>\<open>npos\<close>.\<close>

primrec find_in :: "string \<Rightarrow> string \<Rightarrow> nat option" where
  "find_in sub [] = (if sub = [] then Some 0 else None)"
| "find_in sub (x # xs) =
     (if take (length sub) (x # xs) = sub then Some 0
      else map_option Suc (find_in sub xs))"

definition str_find :: "string \<Rightarrow> string \<Rightarrow> nat \<Rightarrow> nat option" where
  "str_find s sub pos =
     (if length s < pos then None
      else map_option (\<lambda>i. i + pos) (find_in sub (drop pos s)))"

text \<open>The directory a path lives in exists: the working directory, the root, or a
  directory of the model.\<close>

definition parent_ok :: "filesys \<Rightarrow> string \<Rightarrow> bool" where
  "parent_ok fs p =
     (case rfind_char (CHR ''/'') p of
        None \<Rightarrow> True
      | Some i \<Rightarrow> i = 0 \<or> take i p \<in> dirs fs)"

text \<open>\<^verbatim>\<open>stat\<close>: \<open>None\<close> is \<^verbatim>\<open>ENOENT\<close>, \<open>Some d\<close> an existing path, \<open>d\<close> telling a directory.\<close>

definition os_stat :: "filesys \<Rightarrow> string \<Rightarrow> bool option" where
  "os_stat fs p =
     (if p \<in> dirs fs then Some True
      else if files fs p \<noteq> None then Some False
      else None)"

definition os_mkdir :: "filesys \<Rightarrow> string \<Rightarrow> int \<times> filesys" where
  "os_mkdir fs p =
     (if p = [] \<or> os_stat fs p \<noteq> None \<or> \<not> parent_ok fs p then (- 1, fs)
      else (0, fs\<lparr>dirs := insert p (dirs fs)\<rparr>))"

text \<open>\<^verbatim>\<open>open(path, O_RDWR|O_CREAT, mode)\<close>: the file is created empty when missing and is
  never truncated.\<close>

definition os_open :: "filesys \<Rightarrow> string \<Rightarrow> int \<times> filesys" where
  "os_open fs p =
     (if p = [] \<or> p \<in> dirs fs \<or> \<not> parent_ok fs p then (- 1, fs)
      else (int (length (fdtab fs)),
            fs\<lparr>files := (if files fs p = None then (files fs)(p \<mapsto> []) else files fs),
               fdtab := fdtab fs @ [p]\<rparr>))"

definition fd_path :: "filesys \<Rightarrow> int \<Rightarrow> string option" where
  "fd_path fs fd =
     (if 0 \<le> fd \<and> fd < int (length (fdtab fs)) then Some (fdtab fs ! nat fd) else None)"

definition fd_content :: "filesys \<Rightarrow> int \<Rightarrow> string option" where
  "fd_content fs fd = (case fd_path fs fd of None \<Rightarrow> None | Some p \<Rightarrow> files fs p)"

text \<open>The content of a file after \<open>d\<close> is written at offset \<open>off\<close>: a hole before
  \<open>off\<close> reads as zero bytes.\<close>

definition write_at :: "string \<Rightarrow> nat \<Rightarrow> string \<Rightarrow> string" where
  "write_at c off d =
     take off c @ replicate (off - length c) NUL @ d @ drop (off + length d) c"

text \<open>\<^verbatim>\<open>pwrite\<close> returns the count of the bytes it transferred, or \<open>-1\<close>.\<close>

definition os_pwrite :: "filesys \<Rightarrow> int \<Rightarrow> string \<Rightarrow> nat \<Rightarrow> int \<Rightarrow> int \<times> filesys" where
  "os_pwrite fs fd buf nbyte off =
     (case fd_path fs fd of
        None \<Rightarrow> (- 1, fs)
      | Some p \<Rightarrow>
          (case files fs p of
             None \<Rightarrow> (- 1, fs)
           | Some c \<Rightarrow>
               if off < 0 \<or> length buf < nbyte then (- 1, fs)
               else
                 (let m = min nbyte (wlen fs p (nat off) nbyte)
                  in if m = 0 then (0, fs)
                     else (int m,
                           fs\<lparr>files := (files fs)(p \<mapsto> write_at c (nat off) (take m buf))\<rparr>))))"

text \<open>\<^verbatim>\<open>pread\<close> returns its result and the bytes it stored at the pointer.\<close>

definition os_pread :: "filesys \<Rightarrow> int \<Rightarrow> nat \<Rightarrow> int \<Rightarrow> int \<times> string" where
  "os_pread fs fd nbyte off =
     (case fd_content fs fd of
        None \<Rightarrow> (- 1, [])
      | Some c \<Rightarrow>
          if off < 0 then (- 1, [])
          else (int (length (take nbyte (drop (nat off) c))), take nbyte (drop (nat off) c)))"

definition os_ftruncate :: "filesys \<Rightarrow> int \<Rightarrow> int \<Rightarrow> int \<times> filesys" where
  "os_ftruncate fs fd sz =
     (case fd_path fs fd of
        None \<Rightarrow> (- 1, fs)
      | Some p \<Rightarrow>
          (case files fs p of
             None \<Rightarrow> (- 1, fs)
           | Some c \<Rightarrow>
               if sz < 0 then (- 1, fs)
               else (0, fs\<lparr>files := (files fs)(p \<mapsto>
                       take (nat sz) c @ replicate (nat sz - length c) NUL)\<rparr>)))"

text \<open>\<^verbatim>\<open>fopen(path, "rb")\<close> gives the bytes of the file, or \<open>None\<close> for \<^verbatim>\<open>NULL\<close>. A directory
  opens, and every read from it fails: it reads as empty.\<close>

definition os_fopen_rb :: "filesys \<Rightarrow> string \<Rightarrow> string option" where
  "os_fopen_rb fs p = (if p \<in> dirs fs then Some [] else files fs p)"

text \<open>Modelled from the spec: \<^verbatim>\<open>file_size\<close> of \<^verbatim>\<open>compat.h\<close>: the size of the file behind a descriptor, negative on
  failure.\<close>

definition file_size :: "filesys \<Rightarrow> int \<Rightarrow> int" where
  "file_size fs fd = (case fd_content fs fd of None \<Rightarrow> - 1 | Some c \<Rightarrow> int (length c))"

text \<open>Modelled from the spec: \<^verbatim>\<open>file_size_by_path\<close> of \<^verbatim>\<open>compat.h\<close>: the size of the file at a path, negative
  when \<^verbatim>\<open>stat\<close> fails.\<close>

definition file_size_by_path :: "filesys \<Rightarrow> string \<Rightarrow> int" where
  "file_size_by_path fs p =
     (if p \<in> dirs fs then 0
      else case files fs p of None \<Rightarrow> - 1 | Some c \<Rightarrow> int (length c))"

text \<open>Modelled from the spec: \<^verbatim>\<open>file_resize\<close> of \<^verbatim>\<open>compat.h\<close>: "truncate/extend to exactly size".\<close>

definition file_resize :: "filesys \<Rightarrow> int \<Rightarrow> int \<Rightarrow> int \<times> filesys" where
  "file_resize fs fd sz = os_ftruncate fs fd sz"

subsection \<open>C strings and streams\<close>

text \<open>The C string at a pointer: the bytes before the first \<^verbatim>\<open>NUL\<close>. The bytes after the end
  of a buffer are not part of the model; a scan that runs off the list stops there, as at a
  terminating \<^verbatim>\<open>NUL\<close>.\<close>

definition c_str :: "string \<Rightarrow> string" where
  "c_str s = takeWhile (\<lambda>c. c \<noteq> NUL) s"

text \<open>\<^verbatim>\<open>strncmp(a, b, n) == 0\<close>.\<close>

definition strncmp_eq :: "string \<Rightarrow> string \<Rightarrow> nat \<Rightarrow> bool" where
  "strncmp_eq a b n = (take n (c_str a) = take n (c_str b))"

text \<open>\<^verbatim>\<open>isspace\<close> and \<^verbatim>\<open>isdigit\<close> in the C locale.\<close>

definition isspace :: "char \<Rightarrow> bool" where
  "isspace c = (c = CHR '' '' \<or> c = CHR 0x09 \<or> c = CHR 0x0A \<or> c = CHR 0x0B \<or> c = CHR 0x0C \<or> c = CHR 0x0D)"

definition isdigit :: "char \<Rightarrow> bool" where
  "isdigit c = (48 \<le> (of_char c :: nat) \<and> (of_char c :: nat) \<le> 57)"

definition decimal :: "string \<Rightarrow> int" where
  "decimal ds = foldl (\<lambda>a c. 10 * a + (int (of_char c) - 48)) 0 ds"

text \<open>\<^verbatim>\<open>sscanf(s, "%lld", &v)\<close> returns its result and the value it stores: \<open>-1\<close> is \<^verbatim>\<open>EOF\<close> (the
  string ends before any conversion), \<open>0\<close> a matching failure, \<open>1\<close> a conversion, which
  accepts a sign and stops at the first character that is no digit. The value is stored
  only when the result is \<open>1\<close>. For a number that does not fit \<^verbatim>\<open>long long\<close> the C standard
  leaves the behaviour undefined; the GNU C library stores \<^verbatim>\<open>LLONG_MAX\<close> or \<^verbatim>\<open>LLONG_MIN\<close>, and
  so does the model.\<close>

definition llong_sat :: "int \<Rightarrow> int" where
  "llong_sat v = max (- (2 ^ 63)) (min (2 ^ 63 - 1) v)"

definition sscanf_lld :: "string \<Rightarrow> int \<times> int" where
  "sscanf_lld s =
     (let t = dropWhile isspace (c_str s) in
      if t = [] then (- 1, 0)
      else
        (let neg = (hd t = CHR ''-'');
             u = (if hd t = CHR ''-'' \<or> hd t = CHR ''+'' then tl t else t);
             ds = takeWhile isdigit u
         in if ds = [] then (0, 0)
            else (1, llong_sat (if neg then - decimal ds else decimal ds))))"

text \<open>\<^verbatim>\<open>fgets(line, n, fp)\<close> reads at most \<open>n - 1\<close> bytes and stops after a newline; it returns
  \<^verbatim>\<open>NULL\<close> when \<open>n\<close> is \<open>0\<close> or at the end of the file. The result is the line and the rest of the
  stream.\<close>

fun fgets_take :: "nat \<Rightarrow> string \<Rightarrow> string \<times> string" where
  "fgets_take k [] = ([], [])"
| "fgets_take k (c # cs) =
     (if k = 0 then ([], c # cs)
      else if c = CHR 0x0A then ([c], cs)
      else (case fgets_take (k - 1) cs of (l, r) \<Rightarrow> (c # l, r)))"

definition fgets :: "nat \<Rightarrow> string \<Rightarrow> (string \<times> string) option" where
  "fgets n fp = (if n = 0 \<or> fp = [] then None else Some (fgets_take (n - 1) fp))"

lemma fgets_take_length: "length (snd (fgets_take k s)) \<le> length s"
  by (induction k s rule: fgets_take.induct) (auto split: prod.splits)

lemma fgets_shorter: "fgets (k + 2) fp = Some (line, fp') \<Longrightarrow> length fp' < length fp"
proof -
  assume a: "fgets (k + 2) fp = Some (line, fp')"
  then obtain c cs where fp: "fp = c # cs"
    by (cases fp) (auto simp: fgets_def)
  show ?thesis
  proof (cases "c = CHR 0x0A")
    case True
    with a fp show ?thesis by (auto simp: fgets_def)
  next
    case False
    with a fp have "fp' = snd (fgets_take k cs)"
      by (auto simp: fgets_def split: prod.splits)
    with fgets_take_length [of k cs] fp show ?thesis by simp
  qed
qed

subsection \<open>\<^verbatim>\<open>StorageFile\<close>\<close>

text \<open>An Isabelle name cannot end with an underscore: the member \<^verbatim>\<open>x_\<close> of
  \<^verbatim>\<open>StorageFile\<close> is the field \<open>sf_x\<close>, the member \<^verbatim>\<open>x_\<close> of \<^verbatim>\<open>Storage\<close> the field \<open>st_x\<close>.\<close>

record StorageFile =
  sf_spec_pathname :: string
  sf_start :: int
  sf_end :: int
  sf_fd :: int

text \<open>The two constants that \<^verbatim>\<open>storage.cpp\<close> defines.\<close>

definition MULTIFILE_PATHNAME :: string where
  "MULTIFILE_PATHNAME = ''META-INF-multifilespec.txt''"

definition MULTIFILE_PATHNAME_FILE_SEP :: string where
  "MULTIFILE_PATHNAME_FILE_SEP = ''/''"

text \<open>Modelled from the spec: \<^verbatim>\<open>FILE_SEP\<close> of \<^verbatim>\<open>compat.h\<close>, the platform separator. The
  host of this model is POSIX, where it is the slash.\<close>

definition FILE_SEP :: string where
  "FILE_SEP = ''/''"

text \<open>Modelled from the spec: \<^verbatim>\<open>swift::stringreplace\<close>, which substitutes every
  occurrence of one separator by the other. Both separators are single characters.\<close>

definition stringreplace :: "string \<Rightarrow> string \<Rightarrow> string \<Rightarrow> string" where
  "stringreplace dest a b = concat (map (\<lambda>c. if [c] = a then b else [c]) dest)"

text \<open>\<^verbatim>\<open>Storage::spec2ospn\<close> and \<^verbatim>\<open>Storage::os2specpn\<close>.\<close>

definition spec2ospn :: "string \<Rightarrow> string" where
  "spec2ospn specpn =
     (if MULTIFILE_PATHNAME_FILE_SEP \<noteq> FILE_SEP
      then stringreplace specpn MULTIFILE_PATHNAME_FILE_SEP FILE_SEP
      else specpn)"

definition os2specpn :: "string \<Rightarrow> string" where
  "os2specpn ospn =
     (if MULTIFILE_PATHNAME_FILE_SEP \<noteq> FILE_SEP
      then stringreplace ospn FILE_SEP MULTIFILE_PATHNAME_FILE_SEP
      else ospn)"

text \<open>Modelled from the spec: \<^verbatim>\<open>StorageFile::GetSpecPathName\<close>, an accessor declared in \<^verbatim>\<open>swift.h\<close>.\<close>

definition GetSpecPathName :: "StorageFile \<Rightarrow> string" where
  "GetSpecPathName sf = sf_spec_pathname sf"

text \<open>Modelled from the spec: \<^verbatim>\<open>StorageFile::GetStart\<close>, an accessor declared in \<^verbatim>\<open>swift.h\<close>.\<close>

definition GetStart :: "StorageFile \<Rightarrow> int" where
  "GetStart sf = sf_start sf"

text \<open>Modelled from the spec: \<^verbatim>\<open>StorageFile::GetEnd\<close>, an accessor declared in \<^verbatim>\<open>swift.h\<close>.\<close>

definition GetEnd :: "StorageFile \<Rightarrow> int" where
  "GetEnd sf = sf_end sf"

text \<open>Modelled from the spec: \<^verbatim>\<open>StorageFile::GetSize\<close>, declared in \<^verbatim>\<open>swift.h\<close>: \<open>size = end - start + 1\<close>.\<close>

definition GetSize :: "StorageFile \<Rightarrow> int" where
  "GetSize sf = sf_end sf + 1 - sf_start sf"

text \<open>Modelled from the spec: \<^verbatim>\<open>StorageFile::Write\<close>, declared in \<^verbatim>\<open>swift.h\<close>: a positional write at a file-local
  offset, on the file's own descriptor.\<close>

definition SF_Write :: "StorageFile \<Rightarrow> filesys \<Rightarrow> string \<Rightarrow> nat \<Rightarrow> int \<Rightarrow> int \<times> filesys" where
  "SF_Write sf fs buf nbyte offset = os_pwrite fs (sf_fd sf) buf nbyte offset"

text \<open>Modelled from the spec: \<^verbatim>\<open>StorageFile::Read\<close>, declared in \<^verbatim>\<open>swift.h\<close>: a positional read at a file-local offset.\<close>

definition SF_Read :: "StorageFile \<Rightarrow> filesys \<Rightarrow> nat \<Rightarrow> int \<Rightarrow> int \<times> string" where
  "SF_Read sf fs nbyte offset = os_pread fs (sf_fd sf) nbyte offset"

text \<open>Modelled from the spec: \<^verbatim>\<open>StorageFile::ResizeReserved\<close>, declared in \<^verbatim>\<open>swift.h\<close>: the file is extended to its
  size.\<close>

definition SF_ResizeReserved :: "StorageFile \<Rightarrow> filesys \<Rightarrow> int \<times> filesys" where
  "SF_ResizeReserved sf fs = file_resize fs (sf_fd sf) (GetSize sf)"

lemma find_in_bounds: "find_in sub s = Some i \<Longrightarrow> i + length sub \<le> length s"
proof (induction s arbitrary: i)
  case Nil
  then show ?case by (simp split: if_splits)
next
  case (Cons x xs)
  show ?case
  proof (cases "take (length sub) (x # xs) = sub")
    case True
    have "length (take (length sub) (x # xs)) \<le> length (x # xs)"
      by (simp del: take_Suc_Cons)
    then have "length sub \<le> length (x # xs)"
      by (simp only: True)
    with True Cons.prems show ?thesis by simp
  next
    case False
    with Cons.prems obtain j where "find_in sub xs = Some j" "i = Suc j"
      by auto
    with Cons.IH show ?thesis by fastforce
  qed
qed

lemma str_find_bounds:
  "str_find s sub pos = Some j \<Longrightarrow> pos \<le> j \<and> j + length sub \<le> length s"
  by (auto simp: str_find_def split: if_splits dest!: find_in_bounds)

text \<open>The directory loop of the constructor: every proper prefix of the path that ends
  before a separator (the search starts at index 1) is made a directory when missing;
  the constructor gives up, leaving \<^verbatim>\<open>fd_\<close> at \<open>-1\<close>, when \<^verbatim>\<open>mkdir\<close> fails or the prefix
  exists and is no directory. The result tells whether the loop ran to its end.\<close>

function mkdirs :: "filesys \<Rightarrow> string \<Rightarrow> nat \<Rightarrow> bool \<times> filesys" where
  "mkdirs fs ospathname i =
     (case str_find ospathname FILE_SEP (i + 1) of
        None \<Rightarrow> (True, fs)
      | Some j \<Rightarrow>
          (case os_stat fs (take j ospathname) of
             None \<Rightarrow>
               (case os_mkdir fs (take j ospathname) of
                  (ret, fs') \<Rightarrow> if ret < 0 then (False, fs') else mkdirs fs' ospathname j)
           | Some isdir \<Rightarrow>
               if \<not> isdir then (False, fs) else mkdirs fs ospathname j))"
  by pat_completeness auto

termination
proof (relation "measure (\<lambda>(fs, p, i). length p - i)")
  show "wf (measure (\<lambda>(fs, p, i). length p - i))" by simp
next
  fix fs :: filesys and ospathname i j x ret fs'
  assume "str_find ospathname FILE_SEP (i + 1) = Some j"
  then have "i + 1 \<le> j \<and> j + length FILE_SEP \<le> length ospathname"
    by (rule str_find_bounds)
  then show "((fs', ospathname, j), (fs, ospathname, i)) \<in> measure (\<lambda>(fs, p, i). length p - i)"
    by (auto simp: FILE_SEP_def)
next
  fix fs :: filesys and ospathname i j isdir
  assume "str_find ospathname FILE_SEP (i + 1) = Some j"
  then have "i + 1 \<le> j \<and> j + length FILE_SEP \<le> length ospathname"
    by (rule str_find_bounds)
  then show "((fs, ospathname, j), (fs, ospathname, i)) \<in> measure (\<lambda>(fs, p, i). length p - i)"
    by (auto simp: FILE_SEP_def)
qed

declare mkdirs.simps [simp del]

text \<open>The value of an \<^verbatim>\<open>int64_t\<close> sum: the exact sum, wrapped into
  \<open>[- 2 ^ 63, 2 ^ 63)\<close>.\<close>

definition s64 :: "int \<Rightarrow> int" where
  "s64 x = (x + 2 ^ 63) mod 2 ^ 64 - 2 ^ 63"

text \<open>The constructor \<^verbatim>\<open>StorageFile::StorageFile\<close>, with \<^verbatim>\<open>end_ = start+size-1\<close>.\<close>

definition StorageFile_new :: "string \<Rightarrow> int \<Rightarrow> int \<Rightarrow> filesys \<Rightarrow> StorageFile \<times> filesys" where
  "StorageFile_new utf8path start sz fs =
     (let sf = \<lparr>sf_spec_pathname = utf8path, sf_start = start,
                sf_end = s64 (s64 (start + sz) - 1), sf_fd = - 1\<rparr>;
          ospathname = spec2ospn utf8path;
          (ok, fs1) = (if str_find ospathname FILE_SEP 0 \<noteq> None
                       then mkdirs fs ospathname 0 else (True, fs))
      in if \<not> ok then (sf, fs1)
         else (case os_open fs1 ospathname of (fd, fs2) \<Rightarrow> (sf\<lparr>sf_fd := fd\<rparr>, fs2)))"

subsection \<open>\<^verbatim>\<open>Storage\<close>: the object\<close>

text \<open>The enumeration \<^verbatim>\<open>storage_state_t\<close> and the members of \<^verbatim>\<open>Storage\<close> that \<^verbatim>\<open>storage.cpp\<close>
  uses. The hash tree \<^verbatim>\<open>ht_\<close> is a collaborator: \<^verbatim>\<open>Read\<close> takes the value of \<^verbatim>\<open>ht_->size()\<close> as
  an argument.\<close>

datatype storage_state_t =
  STOR_STATE_INIT
| STOR_STATE_MFSPEC_SIZE_KNOWN
| STOR_STATE_MFSPEC_COMPLETE
| STOR_STATE_SINGLE_FILE

record Storage =
  st_state :: storage_state_t
  st_spec_size :: int
  st_single_fd :: int
  st_reserved_size :: int
  st_os_pathname :: string
  st_sfs :: "StorageFile list"

text \<open>The object after the member initialisers of the constructor and
  \<^verbatim>\<open>os_pathname_ = pathname\<close>.\<close>

definition st_init :: "string \<Rightarrow> Storage" where
  "st_init pathname =
     \<lparr>st_state = STOR_STATE_INIT, st_spec_size = 0, st_single_fd = - 1,
      st_reserved_size = - 1, st_os_pathname = pathname, st_sfs = []\<rparr>"

subsection \<open>\<^verbatim>\<open>Storage::FindStorageFile\<close>\<close>

text \<open>C's integer division truncates towards zero.\<close>

definition c_div :: "int \<Rightarrow> int \<Rightarrow> int" where
  "c_div a b = (if (a < 0) = (b < 0) then \<bar>a\<bar> div \<bar>b\<bar> else - (\<bar>a\<bar> div \<bar>b\<bar>))"

text \<open>The loop of the binary search. The search starts at \<open>imin = 0\<close> and
  \<open>imax = size - 1\<close> and keeps \<open>0 \<le> imin\<close> and \<open>imax < size\<close>, so every \<^verbatim>\<open>sfs_[imid]\<close>
  it reads is an element of the vector.\<close>

function find_loop :: "StorageFile list \<Rightarrow> int \<Rightarrow> int \<Rightarrow> int \<Rightarrow> StorageFile option" where
  "find_loop sfs offset imin imax =
     (if imax \<ge> imin then
        (let imid = c_div (imin + imax) 2 in
         if offset \<ge> GetEnd (sfs ! nat imid) + 1 then find_loop sfs offset (imid + 1) imax
         else if offset < GetStart (sfs ! nat imid) then find_loop sfs offset imin (imid - 1)
         else Some (sfs ! nat imid))
      else None)"
  by pat_completeness auto

termination
  by (relation "measure (\<lambda>(sfs, offset, imin, imax). nat (imax - imin + 1))")
     (auto simp: c_div_def)

declare find_loop.simps [simp del]

text \<open>\<^verbatim>\<open>Storage::FindStorageFile\<close>; \<open>None\<close> is \<^verbatim>\<open>NULL\<close>.\<close>

definition FindStorageFile :: "StorageFile list \<Rightarrow> int \<Rightarrow> StorageFile option" where
  "FindStorageFile sfs offset = find_loop sfs offset 0 (int (length sfs) - 1)"

subsection \<open>\<^verbatim>\<open>Storage::ParseSpec\<close>\<close>

text \<open>The two halves of a manifest line, split at its last space: \<^verbatim>\<open>pline.substr(0, idx)\<close>
  and \<^verbatim>\<open>pline.substr(idx + 1, pline.length())\<close> for \<^verbatim>\<open>idx = pline.rfind(' ')\<close>. When the line
  has no space, \<^verbatim>\<open>idx\<close> is \<^verbatim>\<open>npos\<close>, \<^verbatim>\<open>idx + 1\<close> wraps to \<open>0\<close>, and both halves are the whole line.\<close>

definition specpath_of :: "string \<Rightarrow> string" where
  "specpath_of pline =
     (case rfind_char (CHR '' '') pline of None \<Rightarrow> pline | Some idx \<Rightarrow> take idx pline)"

definition sizestr_of :: "string \<Rightarrow> string" where
  "sizestr_of pline =
     (case rfind_char (CHR '' '') pline of None \<Rightarrow> pline | Some idx \<Rightarrow> drop (idx + 1) pline)"

text \<open>The loop of \<^verbatim>\<open>ParseSpec\<close> over the open manifest \<open>fp\<close> (the bytes not yet read).
  \<^verbatim>\<open>MULTIFILE_MAX_LINE\<close> is declared in \<^verbatim>\<open>swift.h\<close>, which is not among the sources, and is a
  parameter here: it is \<open>k + 2\<close>, any value for which \<^verbatim>\<open>fgets\<close> reads at least one byte.
  \<open>sf\<close> is the file of the manifest itself, \<open>sfs\<close> the vector \<^verbatim>\<open>sfs_\<close>.\<close>

function parse_loop ::
  "nat \<Rightarrow> string \<Rightarrow> int \<Rightarrow> StorageFile \<Rightarrow> StorageFile list \<Rightarrow> filesys
     \<Rightarrow> int \<times> StorageFile list \<times> filesys" where
  "parse_loop k fp offset sf sfs fs =
     (case fgets (k + 2) fp of
        None \<Rightarrow> (0, sfs, fs)
      | Some (line, fp') \<Rightarrow>
          (let pline = c_str line;
               specpath = specpath_of pline;
               sizestr = sizestr_of pline;
               n = fst (sscanf_lld sizestr);
               fsize = (if n = 1 then snd (sscanf_lld sizestr) else 0)
           in if n = 0 then (- 1, sfs, fs)
              else if take 1 specpath = MULTIFILE_PATHNAME_FILE_SEP then (- 1, sfs, fs)
              else if str_find specpath ''..'' 0 \<noteq> None then (- 1, sfs, fs)
              else if offset = 0 then parse_loop k fp' (s64 (offset + GetSize sf)) sf sfs fs
              else (case StorageFile_new specpath offset fsize fs of
                      (sf', fs') \<Rightarrow> parse_loop k fp' (s64 (offset + fsize)) sf (sfs @ [sf']) fs')))"
  by pat_completeness auto

termination
  by (relation "measure (\<lambda>(k, fp, offset, sf, sfs, fs). length fp)")
     (auto dest: fgets_shorter [unfolded add_2_eq_Suc'])

declare parse_loop.simps [simp del]

text \<open>\<^verbatim>\<open>Storage::ParseSpec\<close>. The manifest is read from the path of \<open>sf\<close>; nothing in the loop
  writes to a file, so the stream is the content of the file when it is opened.\<close>

definition ParseSpec :: "nat \<Rightarrow> Storage \<Rightarrow> filesys \<Rightarrow> StorageFile \<Rightarrow> int \<times> Storage \<times> filesys" where
  "ParseSpec k s fs sf =
     (case os_fopen_rb fs (GetSpecPathName sf) of
        None \<Rightarrow> (- 1, s, fs)
      | Some fp \<Rightarrow>
          (case parse_loop k fp 0 sf (st_sfs s) fs of
             (ret, sfs', fs') \<Rightarrow> (ret, s\<lparr>st_sfs := sfs'\<rparr>, fs')))"

subsection \<open>Reservation and \<^verbatim>\<open>Storage::OpenSingleFile\<close>\<close>

text \<open>\<^verbatim>\<open>Storage::GetReservedSize\<close> and \<^verbatim>\<open>Storage::ResizeReserved\<close>, with their loops over the
  vector.\<close>

fun total_disk_size :: "StorageFile list \<Rightarrow> filesys \<Rightarrow> int \<Rightarrow> int" where
  "total_disk_size [] fs totaldisksize = totaldisksize"
| "total_disk_size (sf # r) fs totaldisksize =
     (let fsize = file_size_by_path fs (GetSpecPathName sf)
      in if fsize < 0 then fsize else total_disk_size r fs (totaldisksize + fsize))"

definition GetReservedSize :: "Storage \<Rightarrow> filesys \<Rightarrow> int" where
  "GetReservedSize s fs =
     (if st_state s = STOR_STATE_SINGLE_FILE then file_size fs (st_single_fd s)
      else if st_state s \<noteq> STOR_STATE_MFSPEC_COMPLETE then - 1
      else total_disk_size (st_sfs s) fs 0)"

fun resize_all :: "StorageFile list \<Rightarrow> filesys \<Rightarrow> int \<times> filesys" where
  "resize_all [] fs = (0, fs)"
| "resize_all (sf # r) fs =
     (case SF_ResizeReserved sf fs of
        (ret, fs') \<Rightarrow> if ret < 0 then (ret, fs') else resize_all r fs')"

definition ResizeReserved :: "Storage \<Rightarrow> filesys \<Rightarrow> int \<Rightarrow> int \<times> Storage \<times> filesys" where
  "ResizeReserved s fs sz =
     (if st_state s = STOR_STATE_SINGLE_FILE then
        (case file_resize fs (st_single_fd s) sz of (ret, fs') \<Rightarrow> (ret, s, fs'))
      else if st_state s = STOR_STATE_INIT then (0, s\<lparr>st_reserved_size := sz\<rparr>, fs)
      else if st_state s \<noteq> STOR_STATE_MFSPEC_COMPLETE then (- 1, s, fs)
      else if sz > GetReservedSize s fs then
        (case resize_all (st_sfs s) fs of (ret, fs') \<Rightarrow> (ret, s, fs'))
      else (0, s, fs))"

text \<open>\<^verbatim>\<open>Storage::OpenSingleFile\<close>.\<close>

definition OpenSingleFile :: "Storage \<Rightarrow> filesys \<Rightarrow> int \<times> Storage \<times> filesys" where
  "OpenSingleFile s fs =
     (let s1 = s\<lparr>st_state := STOR_STATE_SINGLE_FILE\<rparr>;
          (fd, fs1) = os_open fs (st_os_pathname s1);
          s2 = s1\<lparr>st_single_fd := (if fd < 0 then - 1 else fd)\<rparr>
      in if st_reserved_size s2 \<noteq> - 1 then
           (case ResizeReserved s2 fs1 (st_reserved_size s2) of
              (ret, s3, fs3) \<Rightarrow> if ret < 0 then (ret, s3, fs3) else (st_single_fd s3, s3, fs3))
         else (st_single_fd s2, s2, fs1))"

subsection \<open>\<^verbatim>\<open>Storage::Write\<close>\<close>

text \<open>The conversion of a signed value to \<^verbatim>\<open>size_t\<close> or \<^verbatim>\<open>uint64_t\<close>. In \<^verbatim>\<open>WriteBuffer\<close>, the
  comparison \<^verbatim>\<open>offset+nbyte <= sf->GetEnd()+1\<close> has a \<^verbatim>\<open>size_t\<close> operand, so both sides are
  compared as unsigned values; \<^verbatim>\<open>head\<close> is passed to a \<^verbatim>\<open>size_t\<close> parameter.\<close>

definition u64 :: "int \<Rightarrow> int" where
  "u64 x = x mod 2 ^ 64"

definition size_t_of :: "int \<Rightarrow> nat" where
  "size_t_of x = nat (u64 x)"

text \<open>\<^verbatim>\<open>Storage::WriteBuffer\<close> returns the pair \<^verbatim>\<open>(head, tail)\<close> and the new disk. Of the
  count that \<^verbatim>\<open>StorageFile::Write\<close> returns it tests the sign only: a short write is reported as
  the whole head.\<close>

definition WriteBuffer ::
  "StorageFile \<Rightarrow> filesys \<Rightarrow> string \<Rightarrow> nat \<Rightarrow> int \<Rightarrow> (int \<times> int) \<times> filesys" where
  "WriteBuffer sf fs buf nbyte offset =
     (if u64 (offset + int nbyte) \<le> u64 (GetEnd sf + 1) then
        (case SF_Write sf fs buf nbyte (offset - GetStart sf) of
           (ret, fs') \<Rightarrow> if ret < 0 then ((- 1, - 1), fs') else ((int nbyte, 0), fs'))
      else
        (let head = GetEnd sf + 1 - offset;
             tail = int nbyte - head
         in case SF_Write sf fs buf (size_t_of head) (offset - GetStart sf) of
              (ret, fs') \<Rightarrow> if ret < 0 then ((- 1, - 1), fs') else ((head, tail), fs')))"

lemma find_loop_in_range:
  "find_loop sfs offset imin imax = Some sf \<Longrightarrow> GetStart sf \<le> offset \<and> offset < GetEnd sf + 1"
proof (induction sfs offset imin imax rule: find_loop.induct)
  case (1 sfs offset imin imax)
  define imid where "imid = c_div (imin + imax) 2"
  from "1.prems" have le: "imin \<le> imax"
    by (subst (asm) find_loop.simps) (simp split: if_splits)
  show ?case
  proof (cases "offset \<ge> GetEnd (sfs ! nat imid) + 1")
    case True
    with le "1.prems" have "find_loop sfs offset (imid + 1) imax = Some sf"
      by (subst (asm) find_loop.simps) (simp add: imid_def Let_def)
    with "1.IH"(1) [OF _ imid_def True] le show ?thesis by simp
  next
    case A: False
    show ?thesis
    proof (cases "offset < GetStart (sfs ! nat imid)")
      case True
      with A le "1.prems" have "find_loop sfs offset imin (imid - 1) = Some sf"
        by (subst (asm) find_loop.simps) (simp add: imid_def Let_def)
      with "1.IH"(2) [OF _ imid_def A True] le show ?thesis by simp
    next
      case False
      with A le "1.prems" have "sf = sfs ! nat imid"
        by (subst (asm) find_loop.simps) (simp add: imid_def Let_def)
      with A False show ?thesis by simp
    qed
  qed
qed

lemma FindStorageFile_in_range:
  "FindStorageFile sfs offset = Some sf \<Longrightarrow> GetStart sf \<le> offset \<and> offset < GetEnd sf + 1"
  unfolding FindStorageFile_def by (rule find_loop_in_range)

lemma WriteBuffer_tail:
  "WriteBuffer sf fs buf nbyte offset = ((first, second), fs') \<Longrightarrow> offset < GetEnd sf + 1 \<Longrightarrow>
   0 < second \<Longrightarrow> second < int nbyte"
  by (auto simp: WriteBuffer_def Let_def split: if_splits prod.splits)

lemma size_t_of_le: "0 \<le> x \<Longrightarrow> size_t_of x \<le> nat x"
  by (simp add: size_t_of_def u64_def zmod_le_nonneg_dividend nat_mono)

lemma ParseSpec_state: "ParseSpec k s fs sf = (r, s', fs') \<Longrightarrow> st_state s' = st_state s"
  by (auto simp: ParseSpec_def split: option.splits prod.splits)

lemma ResizeReserved_state: "ResizeReserved s fs sz = (r, s', fs') \<Longrightarrow> st_state s' = st_state s"
  by (auto simp: ResizeReserved_def split: if_splits prod.splits)

lemma OpenSingleFile_state: "OpenSingleFile s fs = (r, s', fs') \<Longrightarrow> st_state s' = STOR_STATE_SINGLE_FILE"
  by (auto simp: OpenSingleFile_def Let_def split: if_splits prod.splits dest!: ResizeReserved_state)

text \<open>\<^verbatim>\<open>Storage::Write\<close> and \<^verbatim>\<open>Storage::WriteSpecPart\<close>, which call each other. \<^verbatim>\<open>sfs_[0]\<close> on an
  empty vector is undefined behaviour in C++; the model returns \<open>-1\<close> there (the state
  \<^verbatim>\<open>STOR_STATE_MFSPEC_SIZE_KNOWN\<close> is only entered with the manifest's file in the vector).
  The recursion ends: a call in \<^verbatim>\<open>STOR_STATE_MFSPEC_COMPLETE\<close> recurses on a shorter tail, and
  the other calls lead to \<^verbatim>\<open>STOR_STATE_SINGLE_FILE\<close> or \<^verbatim>\<open>STOR_STATE_MFSPEC_COMPLETE\<close>.\<close>

function Write ::
    "nat \<Rightarrow> Storage \<Rightarrow> filesys \<Rightarrow> string \<Rightarrow> nat \<Rightarrow> int \<Rightarrow> int \<times> Storage \<times> filesys"
  and WriteSpecPart ::
    "nat \<Rightarrow> Storage \<Rightarrow> filesys \<Rightarrow> StorageFile \<Rightarrow> string \<Rightarrow> nat \<Rightarrow> int \<Rightarrow> int \<times> Storage \<times> filesys"
where
  "Write k s fs buf nbyte offset =
     (if st_state s = STOR_STATE_SINGLE_FILE then
        (case os_pwrite fs (st_single_fd s) buf nbyte offset of (ret, fs') \<Rightarrow> (ret, s, fs'))
      else if st_state s = STOR_STATE_INIT then
        (if offset \<noteq> 0 then (- 1, s, fs)
         else if strncmp_eq buf MULTIFILE_PATHNAME (length MULTIFILE_PATHNAME) then
           (let bufstr = drop (length MULTIFILE_PATHNAME + 1) buf;
                n = fst (sscanf_lld bufstr)
            in if n \<noteq> 1 then (- 1, s, fs)
               else
                 (let s1 = s\<lparr>st_spec_size := snd (sscanf_lld bufstr)\<rparr>
                  in case StorageFile_new MULTIFILE_PATHNAME 0 (st_spec_size s1) fs of
                       (sf, fs1) \<Rightarrow>
                         WriteSpecPart k (s1\<lparr>st_sfs := st_sfs s1 @ [sf]\<rparr>) fs1 sf buf nbyte offset))
         else
           (case OpenSingleFile s fs of
              (ret, s1, fs1) \<Rightarrow>
                if ret < 0 then (- 1, s1, fs1) else Write k s1 fs1 buf nbyte offset))
      else if st_state s = STOR_STATE_MFSPEC_SIZE_KNOWN then
        (case st_sfs s of
           [] \<Rightarrow> (- 1, s, fs)
         | sf # _ \<Rightarrow> WriteSpecPart k s fs sf buf nbyte offset)
      else
        (case FindStorageFile (st_sfs s) offset of
           None \<Rightarrow> (- 1, s, fs)
         | Some sf \<Rightarrow>
             (case WriteBuffer sf fs buf nbyte offset of
                ((first, second), fs1) \<Rightarrow>
                  if first = - 1 then (- 1, s, fs1)
                  else if second > 0 then
                    (case Write k s fs1 (drop (nat first) buf) (size_t_of second) (offset + first) of
                       (ret, s2, fs2) \<Rightarrow>
                         if ret < 0 then (ret, s2, fs2) else (first + ret, s2, fs2))
                  else (first, s, fs1))))"
| "WriteSpecPart k s fs sf buf nbyte offset =
     (case WriteBuffer sf fs buf nbyte offset of
        ((first, second), fs1) \<Rightarrow>
          if first = - 1 then (- 1, s, fs1)
          else if offset + first = GetEnd sf + 1 then
            (case ParseSpec k (s\<lparr>st_state := STOR_STATE_MFSPEC_COMPLETE\<rparr>) fs1 sf of
               (pret, s2, fs2) \<Rightarrow>
                 if pret < 0 then (- 1, s2, fs2)
                 else
                   (case Write k s2 fs2 (drop (nat first) buf) (size_t_of second) (offset + first) of
                      (ret, s3, fs3) \<Rightarrow>
                        if ret < 0 then (ret, s3, fs3) else (first + ret, s3, fs3)))
          else (first, s\<lparr>st_state := STOR_STATE_MFSPEC_SIZE_KNOWN\<rparr>, fs1))"
  by pat_completeness auto

termination
  apply (relation "inv_image (less_than <*lex*> less_than)
      (\<lambda>x. case x of
          Inl (k, s, fs, buf, nbyte, offset) \<Rightarrow>
            (if st_state s = STOR_STATE_INIT \<or> st_state s = STOR_STATE_MFSPEC_SIZE_KNOWN
             then (2, 0) else (0, nbyte))
        | Inr (k, s, fs, sf, buf, nbyte, offset) \<Rightarrow> (1, 0))")
       apply (intro wf_inv_image wf_lex_prod wf_less_than)
      apply simp_all
  subgoal for s fs buf offset x y xa ya
    using OpenSingleFile_state [of s fs x xa ya] by auto
  subgoal for s fs buf nbyte offset x2 x y xa ya
    using FindStorageFile_in_range [of "st_sfs s" offset x2]
      WriteBuffer_tail [of x2 fs buf nbyte offset xa ya y] size_t_of_le [of ya]
    by auto
  subgoal for k s fs sf buf nbyte offset x y xa ya xb yb xc yc
    using ParseSpec_state [of k "s\<lparr>st_state := STOR_STATE_MFSPEC_COMPLETE\<rparr>" y sf xb xc yc]
    by auto
  done

declare Write.simps [simp del] WriteSpecPart.simps [simp del]

subsection \<open>\<^verbatim>\<open>Storage::Read\<close> and the constructor\<close>

text \<open>\<^verbatim>\<open>Storage::Read\<close> returns its result and the bytes it stored in the buffer. It assigns no
  member. A read of \<open>0\<close> bytes short of \<^verbatim>\<open>ht_->size()\<close> recurses with the same arguments: the
  function may not return, and \<open>None\<close> stands for that.\<close>

partial_function (option) Read ::
  "Storage \<Rightarrow> filesys \<Rightarrow> int \<Rightarrow> nat \<Rightarrow> int \<Rightarrow> (int \<times> string) option" where
  "Read s fs ht_size nbyte offset =
     (if st_state s = STOR_STATE_SINGLE_FILE then Some (os_pread fs (st_single_fd s) nbyte offset)
      else if st_state s = STOR_STATE_INIT then Some (- 1, [])
      else
        (case FindStorageFile (st_sfs s) offset of
           None \<Rightarrow> Some (- 1, [])
         | Some sf \<Rightarrow>
             (case SF_Read sf fs nbyte (offset - GetStart sf) of
                (ret, d) \<Rightarrow>
                  if ret < 0 then Some (ret, d)
                  else if ret < int nbyte \<and> offset + ret \<noteq> ht_size then
                    Option.bind (Read s fs ht_size (nbyte - nat ret) (offset + ret))
                      (\<lambda>(newret, d').
                         if newret < 0 then Some (newret, d) else Some (ret + newret, d @ d'))
                  else Some (ret, d))))"

declare Read.simps [code]

text \<open>The constructor \<^verbatim>\<open>Storage::Storage\<close>. \<^verbatim>\<open>stat\<close> fails in the model only with \<^verbatim>\<open>ENOENT\<close>.\<close>

definition Storage_new :: "nat \<Rightarrow> string \<Rightarrow> filesys \<Rightarrow> Storage \<times> filesys" where
  "Storage_new k pathname fs =
     (let s0 = st_init pathname;
          fsize = file_size_by_path fs pathname
      in if fsize < 0 then (s0, fs)
         else
           (case os_fopen_rb fs pathname of
              None \<Rightarrow> (s0, fs)
            | Some content \<Rightarrow>
                if strncmp_eq (take (length MULTIFILE_PATHNAME) content) MULTIFILE_PATHNAME
                     (length MULTIFILE_PATHNAME)
                then
                  (case StorageFile_new pathname 0 fsize fs of
                     (sf, fs1) \<Rightarrow>
                       (case ParseSpec k (s0\<lparr>st_state := STOR_STATE_MFSPEC_COMPLETE, st_sfs := [sf]\<rparr>) fs1 sf of
                          (ret, s1, fs2) \<Rightarrow> (s1, fs2)))
                else
                  (case OpenSingleFile s0 fs of (ret, s1, fs1) \<Rightarrow> (s1, fs1))))"

subsection \<open>Sequences of calls\<close>

text \<open>A run of the object: a sequence of calls of its four operations, each on the object
  and the disk the call before left. \<^verbatim>\<open>Read\<close> and \<^verbatim>\<open>GetReservedSize\<close> assign no member and write
  nothing; a \<^verbatim>\<open>Read\<close> that does not return ends the run.\<close>

datatype call =
  CallWrite string nat int
| CallRead int nat int
| CallResizeReserved int
| CallGetReservedSize

definition step :: "nat \<Rightarrow> call \<Rightarrow> Storage \<times> filesys \<Rightarrow> (Storage \<times> filesys) option" where
  "step k c w =
     (case w of (s, fs) \<Rightarrow>
        (case c of
           CallWrite buf nbyte offset \<Rightarrow>
             (case Write k s fs buf nbyte offset of (ret, s', fs') \<Rightarrow> Some (s', fs'))
         | CallRead ht_size nbyte offset \<Rightarrow>
             (case Read s fs ht_size nbyte offset of None \<Rightarrow> None | Some r \<Rightarrow> Some (s, fs))
         | CallResizeReserved sz \<Rightarrow>
             (case ResizeReserved s fs sz of (ret, s', fs') \<Rightarrow> Some (s', fs'))
         | CallGetReservedSize \<Rightarrow> Some (s, fs)))"

fun run :: "nat \<Rightarrow> call list \<Rightarrow> Storage \<times> filesys \<Rightarrow> (Storage \<times> filesys) option" where
  "run k [] w = Some w"
| "run k (c # cs) w = (case step k c w of None \<Rightarrow> None | Some w' \<Rightarrow> run k cs w')"

section \<open>The vocabulary of the claims\<close>

text \<open>The offset lies in the half-closed range \<open>[start, end + 1)\<close> of the file.\<close>

definition in_range :: "StorageFile \<Rightarrow> int \<Rightarrow> bool" where
  "in_range sf offset = (GetStart sf \<le> offset \<and> offset < GetEnd sf + 1)"

text \<open>The vector is sorted by start, and each file ends one byte before the next starts.\<close>

fun sorted_contiguous :: "StorageFile list \<Rightarrow> bool" where
  "sorted_contiguous (a # b # r) =
     (GetStart a \<le> GetStart b \<and> GetEnd a + 1 = GetStart b \<and> sorted_contiguous (b # r))"
| "sorted_contiguous _ = True"

text \<open>The two terminal states.\<close>

definition terminal :: "storage_state_t \<Rightarrow> bool" where
  "terminal st = (st = STOR_STATE_SINGLE_FILE \<or> st = STOR_STATE_MFSPEC_COMPLETE)"

text \<open>What one iteration of the loop of \<^verbatim>\<open>ParseSpec\<close> computes from the line \<^verbatim>\<open>fgets\<close> returned:
  the path, the result of the scan of the size field, the size, and whether one of the
  three checks ends the loop with \<open>-1\<close>.\<close>

definition line_specpath :: "string \<Rightarrow> string" where
  "line_specpath line = specpath_of (c_str line)"

definition line_scan :: "string \<Rightarrow> int \<times> int" where
  "line_scan line = sscanf_lld (sizestr_of (c_str line))"

definition line_fsize :: "string \<Rightarrow> int" where
  "line_fsize line = (if fst (line_scan line) = 1 then snd (line_scan line) else 0)"


definition line_rejected :: "string \<Rightarrow> bool" where
  "line_rejected line =
     (fst (line_scan line) = 0 \<or>
      take 1 (line_specpath line) = MULTIFILE_PATHNAME_FILE_SEP \<or>
      str_find (line_specpath line) ''..'' 0 \<noteq> None)"

text \<open>The lines that successive \<^verbatim>\<open>fgets\<close> calls read from a stream.\<close>

function fgets_lines :: "nat \<Rightarrow> string \<Rightarrow> string list" where
  "fgets_lines k fp =
     (case fgets (k + 2) fp of None \<Rightarrow> [] | Some (line, fp') \<Rightarrow> line # fgets_lines k fp')"
  by pat_completeness auto

termination
  by (relation "measure (\<lambda>(k, fp). length fp)")
     (auto dest: fgets_shorter [unfolded add_2_eq_Suc'])

declare fgets_lines.simps [simp del]

text \<open>A path the manifest must not name: it starts with the separator, or \<open>..\<close> occurs
  somewhere in it.\<close>

definition unsafe_path :: "string \<Rightarrow> bool" where
  "unsafe_path p =
     ((\<exists>r. p = MULTIFILE_PATHNAME_FILE_SEP @ r) \<or> (\<exists>a b. p = a @ ''..'' @ b))"



text \<open>A result with \<^verbatim>\<open>reserved_size_\<close> set in the object.\<close>

definition with_reserved :: "int \<Rightarrow> int \<times> Storage \<times> filesys \<Rightarrow> int \<times> Storage \<times> filesys" where
  "with_reserved S res = (case res of (r, s', fs') \<Rightarrow> (r, s'\<lparr>st_reserved_size := S\<rparr>, fs'))"

section \<open>Volumes and manifests the claims are tried on\<close>

text \<open>A vector of three files, sorted and contiguous.\<close>

definition ex_sfs :: "StorageFile list" where
  "ex_sfs =
     [\<lparr>sf_spec_pathname = ''m'', sf_start = 0, sf_end = 9, sf_fd = 0\<rparr>,
      \<lparr>sf_spec_pathname = ''a'', sf_start = 10, sf_end = 19, sf_fd = 1\<rparr>,
      \<lparr>sf_spec_pathname = ''b'', sf_start = 20, sf_end = 24, sf_fd = 2\<rparr>]"

text \<open>A host that transfers every byte of every write.\<close>

definition all_bytes :: "string \<Rightarrow> nat \<Rightarrow> nat \<Rightarrow> nat" where
  "all_bytes p off n = n"

text \<open>An empty disk, a disk with the directory \<open>d\<close>, and a single-file volume on the file \<open>v\<close>.\<close>

definition fs_empty :: filesys where
  "fs_empty = \<lparr>files = Map.empty, dirs = {}, fdtab = [], wlen = all_bytes\<rparr>"

definition fs_dir :: filesys where
  "fs_dir = \<lparr>files = Map.empty, dirs = {''d''}, fdtab = [], wlen = all_bytes\<rparr>"

definition fs_v :: filesys where
  "fs_v = \<lparr>files = [''v'' \<mapsto> ''0123456789''], dirs = {}, fdtab = [''v''], wlen = all_bytes\<rparr>"

text \<open>The same disk on a host that transfers at most two bytes in one write.\<close>

definition fs_short :: filesys where
  "fs_short = \<lparr>files = [''v'' \<mapsto> ''0123456789''], dirs = {}, fdtab = [''v''],
                wlen = (\<lambda>p off n. 2)\<rparr>"

definition st_v :: Storage where
  "st_v = \<lparr>st_state = STOR_STATE_SINGLE_FILE, st_spec_size = 0, st_single_fd = 0,
            st_reserved_size = - 1, st_os_pathname = ''v'', st_sfs = []\<rparr>"

text \<open>A disk with the manifest \<open>m\<close> of the files \<open>a\<close> and \<open>b\<close>, and a run of four calls.\<close>

definition fs_seed :: filesys where
  "fs_seed = \<lparr>files = [''m'' \<mapsto> ''META-INF-multifilespec.txt 38\<newline>a 4\<newline>b 3\<newline>''],
              dirs = {}, fdtab = [], wlen = all_bytes\<rparr>"

definition calls_ex :: "call list" where
  "calls_ex = [CallResizeReserved 100, CallWrite ''wxyz'' 4 40, CallRead 45 4 40, CallGetReservedSize]"

text \<open>A seeded volume whose second content file, \<open>d\<close>, is an existing directory and cannot
  be opened; the write of four bytes at offset 40, across the files \<open>a\<close> and \<open>d\<close>, as
  \<^verbatim>\<open>Write\<close> does it: the head into \<open>a\<close>, then the tail.\<close>

definition fs_seed_bad :: filesys where
  "fs_seed_bad =
     \<lparr>files = [''m'' \<mapsto> ''META-INF-multifilespec.txt 38\<newline>a 4\<newline>d 3\<newline>''],
      dirs = {''d''}, fdtab = [], wlen = all_bytes\<rparr>"

text \<open>A seeded volume whose manifest names the file \<open>a\<close> twice, before the directory \<open>d\<close>.\<close>

definition fs_dup :: filesys where
  "fs_dup =
     \<lparr>files = [''m'' \<mapsto> ''META-INF-multifilespec.txt 42\<newline>a 4\<newline>a 2\<newline>d 3\<newline>''],
      dirs = {''d''}, fdtab = [], wlen = all_bytes\<rparr>"

definition s_bad :: Storage where
  "s_bad = fst (Storage_new 2080 ''m'' fs_seed_bad)"

definition fs_bad :: filesys where
  "fs_bad = snd (Storage_new 2080 ''m'' fs_seed_bad)"

definition sf_a :: StorageFile where
  "sf_a = \<lparr>sf_spec_pathname = ''a'', sf_start = 38, sf_end = 41, sf_fd = 1\<rparr>"

definition head_bad :: "(int \<times> int) \<times> filesys" where
  "head_bad = WriteBuffer sf_a fs_bad ''wxyz'' 4 40"

definition tail_bad :: "int \<times> Storage \<times> filesys" where
  "tail_bad = Write 2080 s_bad (snd head_bad) (drop 2 ''wxyz'') (size_t_of 2) 42"

text \<open>A leeched volume on the disk with the directory \<open>d\<close>: the first chunk holds the manifest
  (34 bytes) and the three bytes of the file \<open>d\<close>. The object and the disk are those of the
  call of \<^verbatim>\<open>WriteSpecPart\<close> in \<^verbatim>\<open>Write\<close>; then the steps of \<^verbatim>\<open>WriteSpecPart\<close>.\<close>

definition buf_leech :: string where
  "buf_leech = ''META-INF-multifilespec.txt 34\<newline>d 3\<newline>xyz''"

definition sf_m :: StorageFile where
  "sf_m = fst (StorageFile_new MULTIFILE_PATHNAME 0 34 fs_dir)"

definition fs_m :: filesys where
  "fs_m = snd (StorageFile_new MULTIFILE_PATHNAME 0 34 fs_dir)"

definition s_leech :: Storage where
  "s_leech = (st_init ''v'')\<lparr>st_spec_size := 34, st_sfs := [sf_m]\<rparr>"

definition head_leech :: "(int \<times> int) \<times> filesys" where
  "head_leech = WriteBuffer sf_m fs_m buf_leech 37 0"

definition parse_leech :: "int \<times> Storage \<times> filesys" where
  "parse_leech =
     ParseSpec 2080 (s_leech\<lparr>st_state := STOR_STATE_MFSPEC_COMPLETE\<rparr>) (snd head_leech) sf_m"

definition tail_leech :: "int \<times> Storage \<times> filesys" where
  "tail_leech =
     Write 2080 (fst (snd parse_leech)) (snd (snd parse_leech)) (drop 34 buf_leech) (size_t_of 3) 34"

text \<open>A leeched volume on the empty disk: the manifest (38 bytes) and the content of its two
  files in one chunk. The object and the disk are those of the call of \<^verbatim>\<open>WriteSpecPart\<close> in
  \<^verbatim>\<open>Write\<close>.\<close>

definition buf_ok :: string where
  "buf_ok = ''META-INF-multifilespec.txt 38\<newline>a 4\<newline>b 3\<newline>wxyzABC''"

definition sf_m38 :: StorageFile where
  "sf_m38 = fst (StorageFile_new MULTIFILE_PATHNAME 0 38 fs_empty)"

definition fs_m38 :: filesys where
  "fs_m38 = snd (StorageFile_new MULTIFILE_PATHNAME 0 38 fs_empty)"

definition s_m38 :: Storage where
  "s_m38 = (st_init ''v'')\<lparr>st_spec_size := 38, st_sfs := [sf_m38]\<rparr>"

text \<open>A manifest on disk as the file \<open>m\<close>, and the call of \<^verbatim>\<open>ParseSpec\<close> that the constructor makes
  on it: the vector holds the file of the manifest, of the size of the file on disk.\<close>

definition fs_man :: "string \<Rightarrow> filesys" where
  "fs_man content = \<lparr>files = [''m'' \<mapsto> content], dirs = {}, fdtab = [], wlen = all_bytes\<rparr>"

definition sf_man :: "string \<Rightarrow> StorageFile" where
  "sf_man content = fst (StorageFile_new ''m'' 0 (int (length content)) (fs_man content))"

definition parse_man :: "string \<Rightarrow> int \<times> Storage \<times> filesys" where
  "parse_man content =
     ParseSpec 2080
       ((st_init ''m'')\<lparr>st_state := STOR_STATE_MFSPEC_COMPLETE, st_sfs := [sf_man content]\<rparr>)
       (snd (StorageFile_new ''m'' 0 (int (length content)) (fs_man content)))
       (sf_man content)"



definition manifest_big :: string where
  "manifest_big = ''META-INF-multifilespec.txt 56\<newline>a 9223372036854775807\<newline>b 1\<newline>''"




definition manifest_evil :: string where
  "manifest_evil = ''META-INF-multifilespec.txt 48\<newline>a 4\<newline>../evil 4\<newline>b 3\<newline>''"

text \<open>The call of \<^verbatim>\<open>ParseSpec\<close> on the manifest with the unsafe path, and a manifest at an absolute
  path.\<close>

definition fs_evil :: filesys where
  "fs_evil = \<lparr>files = [''m'' \<mapsto> manifest_evil], dirs = {}, fdtab = [''m''], wlen = all_bytes\<rparr>"

definition sf_evil :: StorageFile where
  "sf_evil = \<lparr>sf_spec_pathname = ''m'', sf_start = 0, sf_end = 47, sf_fd = 0\<rparr>"

definition s_evil :: Storage where
  "s_evil = (st_init ''m'')\<lparr>st_state := STOR_STATE_MFSPEC_COMPLETE, st_sfs := [sf_evil]\<rparr>"

definition fs_abs :: filesys where
  "fs_abs = \<lparr>files = [''/tmp/s'' \<mapsto> ''META-INF-multifilespec.txt 34\<newline>a 4\<newline>''],
             dirs = {''/tmp''}, fdtab = [], wlen = all_bytes\<rparr>"

definition sf_abs :: StorageFile where
  "sf_abs = fst (StorageFile_new ''/tmp/s'' 0 34 fs_abs)"

text \<open>The object after \<^verbatim>\<open>ResizeReserved(100)\<close> in \<^verbatim>\<open>STOR_STATE_INIT\<close>.\<close>

definition s_reserved :: Storage where
  "s_reserved = fst (snd (ResizeReserved (st_init ''v'') fs_empty 100))"

section \<open>Lemmas\<close>

lemma sc_next:
  "sorted_contiguous sfs \<Longrightarrow> Suc i < length sfs \<Longrightarrow>
     GetStart (sfs ! i) \<le> GetStart (sfs ! Suc i) \<and> GetEnd (sfs ! i) + 1 = GetStart (sfs ! Suc i)"
proof (induction sfs arbitrary: i rule: sorted_contiguous.induct)
  case (1 a b r)
  then show ?case by (cases i) auto
qed auto

lemma sc_mono:
  "sorted_contiguous sfs \<Longrightarrow> i \<le> j \<Longrightarrow> j < length sfs \<Longrightarrow>
     GetStart (sfs ! i) \<le> GetStart (sfs ! j)"
proof (induction j)
  case 0
  then show ?case by simp
next
  case (Suc j)
  show ?case
  proof (cases "i = Suc j")
    case True
    then show ?thesis by simp
  next
    case False
    with Suc.prems have "i \<le> j" "j < length sfs" by auto
    with Suc have "GetStart (sfs ! i) \<le> GetStart (sfs ! j)" by simp
    moreover from sc_next [OF Suc.prems(1), of j] Suc.prems
    have "GetStart (sfs ! j) \<le> GetStart (sfs ! Suc j)" by simp
    ultimately show ?thesis by linarith
  qed
qed

lemma c_div_2: "0 \<le> a \<Longrightarrow> c_div a 2 = a div 2"
  by (auto simp: c_div_def)

lemma find_loop_spec:
  "sorted_contiguous sfs \<Longrightarrow> 0 \<le> imin \<Longrightarrow> imax < int (length sfs) \<Longrightarrow>
   (\<forall>i. i < nat imin \<longrightarrow> i < length sfs \<longrightarrow> GetEnd (sfs ! i) + 1 \<le> offset) \<Longrightarrow>
   (\<forall>i. imax < int i \<longrightarrow> i < length sfs \<longrightarrow> offset < GetStart (sfs ! i)) \<Longrightarrow>
   (case find_loop sfs offset imin imax of
      Some sf \<Rightarrow> \<exists>i < length sfs. sf = sfs ! i \<and> in_range sf offset
    | None \<Rightarrow> \<forall>i < length sfs. \<not> in_range (sfs ! i) offset)"
proof (induction sfs offset imin imax rule: find_loop.induct)
  case (1 sfs offset imin imax)
  show ?case
  proof (cases "imax \<ge> imin")
    case False
    have "\<not> in_range (sfs ! i) offset" if "i < length sfs" for i
    proof (cases "i < nat imin")
      case True
      with "1.prems"(4) that have "GetEnd (sfs ! i) + 1 \<le> offset" by simp
      then show ?thesis by (simp add: in_range_def)
    next
      case F: False
      with False "1.prems"(2) have "imax < int i" by linarith
      with "1.prems"(5) that have "offset < GetStart (sfs ! i)" by simp
      then show ?thesis by (simp add: in_range_def)
    qed
    with False show ?thesis
      by (subst find_loop.simps) simp
  next
    case True
    define imid where "imid = c_div (imin + imax) 2"
    from True "1.prems"(2) have mid: "imid = (imin + imax) div 2"
      by (simp add: imid_def c_div_2)
    with True "1.prems"(2,3) have bounds: "imin \<le> imid" "imid \<le> imax" "0 \<le> imid" "nat imid < length sfs"
      by auto
    show ?thesis
    proof (cases "offset \<ge> GetEnd (sfs ! nat imid) + 1")
      case A: True
      have inv: "GetEnd (sfs ! i) + 1 \<le> offset" if "i < nat (imid + 1)" "i < length sfs" for i
      proof (cases "i = nat imid")
        case True
        with A show ?thesis by simp
      next
        case F: False
        with that bounds have lt: "i < nat imid" by linarith
        show ?thesis
        proof (cases "imid = imax")
          case True
          with mid bounds have "imin = imid" by linarith
          with lt "1.prems"(4) that show ?thesis by simp
        next
          case False
          with bounds "1.prems"(3) have S: "Suc (nat imid) < length sfs" by linarith
          from lt have "Suc i \<le> nat imid" by simp
          from sc_next [OF "1.prems"(1), of i] that bounds lt
          have "GetEnd (sfs ! i) + 1 = GetStart (sfs ! Suc i)" by simp
          also from sc_mono [OF "1.prems"(1) \<open>Suc i \<le> nat imid\<close>] bounds
          have "\<dots> \<le> GetStart (sfs ! nat imid)" by simp
          also from sc_next [OF "1.prems"(1) S]
          have "\<dots> \<le> GetEnd (sfs ! nat imid) + 1" by simp
          finally show ?thesis using A by linarith
        qed
      qed
      from "1.IH"(1) [OF True imid_def A "1.prems"(1)] bounds "1.prems"(3,5) inv
      have "case find_loop sfs offset (imid + 1) imax of
              Some sf \<Rightarrow> \<exists>i < length sfs. sf = sfs ! i \<and> in_range sf offset
            | None \<Rightarrow> \<forall>i < length sfs. \<not> in_range (sfs ! i) offset"
        by simp
      with True A show ?thesis
        by (subst find_loop.simps) (simp add: imid_def Let_def)
    next
      case A: False
      show ?thesis
      proof (cases "offset < GetStart (sfs ! nat imid)")
        case B: True
        have inv: "offset < GetStart (sfs ! i)" if "imid - 1 < int i" "i < length sfs" for i
        proof -
          from that bounds have "nat imid \<le> i" by linarith
          from sc_mono [OF "1.prems"(1) this that(2)] B show ?thesis by linarith
        qed
        from bounds "1.prems"(3) have "imid - 1 < int (length sfs)" by linarith
        with "1.IH"(2) [OF True imid_def A B "1.prems"(1,2)] "1.prems"(4) inv
        have "case find_loop sfs offset imin (imid - 1) of
              Some sf \<Rightarrow> \<exists>i < length sfs. sf = sfs ! i \<and> in_range sf offset
            | None \<Rightarrow> \<forall>i < length sfs. \<not> in_range (sfs ! i) offset"
          by simp
        with True A B show ?thesis
          by (subst find_loop.simps) (simp add: imid_def Let_def)
      next
        case B: False
        with A have "in_range (sfs ! nat imid) offset" by (simp add: in_range_def)
        with bounds have "\<exists>i < length sfs. sfs ! nat imid = sfs ! i \<and> in_range (sfs ! nat imid) offset"
          by blast
        with True A B show ?thesis
          by (subst find_loop.simps) (simp add: imid_def Let_def)
      qed
    qed
  qed
qed

lemma in_range_unique:
  assumes sc: "sorted_contiguous sfs"
    and i: "i < length sfs" "in_range (sfs ! i) offset"
    and j: "j < length sfs" "in_range (sfs ! j) offset"
  shows "i = j"
proof -
  have no: False
    if "a < b" "b < length sfs" "in_range (sfs ! a) offset" "in_range (sfs ! b) offset" for a b
  proof -
    from that have "Suc a < length sfs" "Suc a \<le> b" by auto
    from sc_next [OF sc this(1)] that(3)
    have "offset < GetStart (sfs ! Suc a)" by (simp add: in_range_def)
    also from sc_mono [OF sc \<open>Suc a \<le> b\<close> that(2)]
    have "\<dots> \<le> GetStart (sfs ! b)" .
    finally show False using that(4) by (simp add: in_range_def)
  qed
  show ?thesis
  proof (rule ccontr)
    assume "i \<noteq> j"
    then consider "i < j" | "j < i" by linarith
    then show False using no i j by cases blast+
  qed
qed

lemma covered:
  "sorted_contiguous sfs \<Longrightarrow> sfs \<noteq> [] \<Longrightarrow> GetStart (hd sfs) \<le> offset \<Longrightarrow>
   offset < GetEnd (last sfs) + 1 \<Longrightarrow> \<exists>i < length sfs. in_range (sfs ! i) offset"
proof (induction sfs rule: sorted_contiguous.induct)
  case (1 a b r)
  show ?case
  proof (cases "offset < GetEnd a + 1")
    case True
    with "1.prems" have "in_range ((a # b # r) ! 0) offset" by (simp add: in_range_def)
    then show ?thesis by blast
  next
    case False
    with "1.prems" "1.IH" obtain i where "i < length (b # r)" "in_range ((b # r) ! i) offset"
      by auto
    then have "Suc i < length (a # b # r) \<and> in_range ((a # b # r) ! Suc i) offset" by simp
    then show ?thesis by blast
  qed
qed (auto simp: in_range_def)

lemma Write_SINGLE:
  "st_state s = STOR_STATE_SINGLE_FILE \<Longrightarrow>
   Write k s fs buf nbyte offset =
     (case os_pwrite fs (st_single_fd s) buf nbyte offset of (ret, fs') \<Rightarrow> (ret, s, fs'))"
  by (subst Write.simps) simp

lemma Write_COMPLETE:
  "st_state s = STOR_STATE_MFSPEC_COMPLETE \<Longrightarrow>
   Write k s fs buf nbyte offset =
     (case FindStorageFile (st_sfs s) offset of
        None \<Rightarrow> (- 1, s, fs)
      | Some sf \<Rightarrow>
          (case WriteBuffer sf fs buf nbyte offset of
             ((first, second), fs1) \<Rightarrow>
               if first = - 1 then (- 1, s, fs1)
               else if second > 0 then
                 (case Write k s fs1 (drop (nat first) buf) (size_t_of second) (offset + first) of
                    (ret, s2, fs2) \<Rightarrow>
                      if ret < 0 then (ret, s2, fs2) else (first + ret, s2, fs2))
               else (first, s, fs1)))"
  by (subst Write.simps) simp

lemma Write_COMPLETE_same:
  "st_state s = STOR_STATE_MFSPEC_COMPLETE \<Longrightarrow> fst (snd (Write k s fs buf nbyte offset)) = s"
proof (induction nbyte arbitrary: fs buf offset rule: less_induct)
  case (less nbyte)
  show ?case
  proof (cases "FindStorageFile (st_sfs s) offset")
    case None
    with less.prems show ?thesis by (simp add: Write_COMPLETE)
  next
    case (Some sf)
    obtain first second fs1 where wb: "WriteBuffer sf fs buf nbyte offset = ((first, second), fs1)"
      by (metis prod.exhaust)
    show ?thesis
    proof (cases "first \<noteq> - 1 \<and> second > 0")
      case False
      with less.prems Some wb show ?thesis by (auto simp: Write_COMPLETE)
    next
      case True
      from FindStorageFile_in_range [OF Some] WriteBuffer_tail [OF wb] True
      have "second < int nbyte" by simp
      with True size_t_of_le [of second] have "size_t_of second < nbyte" by linarith
      from less.IH [OF this less.prems]
      have "fst (snd (Write k s fs1 (drop (nat first) buf) (size_t_of second) (offset + first))) = s" .
      with less.prems Some wb True show ?thesis
        by (subst Write_COMPLETE) (auto split: prod.splits)
    qed
  qed
qed

lemma Write_terminal_same:
  assumes "st_state s = STOR_STATE_SINGLE_FILE \<or> st_state s = STOR_STATE_MFSPEC_COMPLETE"
    and "Write k s fs buf nbyte offset = (r, s', fs')"
  shows "s' = s"
  using assms Write_COMPLETE_same [of s k fs buf nbyte offset]
  by (auto simp: Write_SINGLE split: prod.splits)

lemma step_terminal:
  assumes "terminal (st_state s)" and "step k c (s, fs) = Some (s', fs')"
  shows "st_state s' = st_state s"
proof (cases c)
  case (CallWrite buf nbyte offset)
  with assms(2) obtain r where "Write k s fs buf nbyte offset = (r, s', fs')"
    by (auto simp: step_def split: prod.splits)
  with assms(1) have "s' = s"
    by (intro Write_terminal_same) (auto simp: terminal_def)
  then show ?thesis by simp
next
  case (CallRead ht_size nbyte offset)
  with assms(2) show ?thesis by (auto simp: step_def split: option.splits)
next
  case (CallResizeReserved sz)
  with assms(2) show ?thesis
    by (auto simp: step_def split: prod.splits dest: ResizeReserved_state)
next
  case CallGetReservedSize
  with assms(2) show ?thesis by (simp add: step_def)
qed

lemma os_open_fail: "fst (os_open fs p) < 0 \<Longrightarrow> os_open fs p = (- 1, fs)"
  by (auto simp: os_open_def split: if_splits)

lemma fd_path_neg: "fd_path fs (- 1) = None"
  by (simp add: fd_path_def)

lemma os_pwrite_bad: "os_pwrite fs (- 1) buf nbyte off = (- 1, fs)"
  by (simp add: os_pwrite_def fd_path_neg)

lemma os_pread_bad: "os_pread fs (- 1) nbyte off = (- 1, [])"
  by (simp add: os_pread_def fd_content_def fd_path_neg)

lemma file_resize_bad: "file_resize fs (- 1) sz = (- 1, fs)"
  by (simp add: file_resize_def os_ftruncate_def fd_path_neg)

lemma Read_SINGLE:
  "st_state s = STOR_STATE_SINGLE_FILE \<Longrightarrow>
   Read s fs ht_size nbyte offset = Some (os_pread fs (st_single_fd s) nbyte offset)"
  by (subst Read.simps) simp

lemma write_at_read:
  "take (length d) (drop off (write_at c off d)) = d"
  by (simp add: write_at_def min_def)

lemma os_pwrite_pread:
  assumes "os_pwrite fs fd buf nbyte off = (r, fs')" and "r = int nbyte" and "nbyte = length buf"
  shows "os_pread fs' fd nbyte off = (int nbyte, buf)"
proof -
  from assms(1,2) obtain p c where p: "fd_path fs fd = Some p" and c: "files fs p = Some c"
    and off: "0 \<le> off"
    by (auto simp: os_pwrite_def split: option.splits if_splits)
  define m where "m = min nbyte (wlen fs p (nat off) nbyte)"
  from p c off assms(3) have eq: "os_pwrite fs fd buf nbyte off =
      (if m = 0 then (0, fs)
       else (int m, fs\<lparr>files := (files fs)(p \<mapsto> write_at c (nat off) (take m buf))\<rparr>))"
    unfolding os_pwrite_def m_def Let_def by (simp cong: if_weak_cong)
  show ?thesis
  proof (cases "m = 0")
    case True
    with eq assms(1,2) have "fs' = fs" and "nbyte = 0" by simp_all
    with p c off assms(3) show ?thesis
      by (simp add: os_pread_def fd_content_def)
  next
    case False
    with eq assms(1) have r: "r = int m"
      and fs': "fs' = fs\<lparr>files := (files fs)(p \<mapsto> write_at c (nat off) (take m buf))\<rparr>"
      by simp_all
    from r assms(2,3) have all: "take m buf = buf" by simp
    from p have "fd_path fs' fd = Some p" by (simp add: fs' fd_path_def split: if_splits)
    with fs' all have "fd_content fs' fd = Some (write_at c (nat off) buf)"
      by (simp add: fd_content_def)
    with off assms(3) write_at_read [of buf "nat off" c] show ?thesis
      by (simp add: os_pread_def)
  qed
qed

lemma parse_loop_eof:
  "fgets (k + 2) fp = None \<Longrightarrow> parse_loop k fp offset sf sfs fs = (0, sfs, fs)"
  by (subst parse_loop.simps) simp

lemma parse_loop_reject:
  "fgets (k + 2) fp = Some (line, fp') \<Longrightarrow> line_rejected line \<Longrightarrow>
   parse_loop k fp offset sf sfs fs = (- 1, sfs, fs)"
  by (subst parse_loop.simps)
     (auto simp: line_rejected_def line_scan_def line_specpath_def Let_def)

lemma parse_loop_first:
  "fgets (k + 2) fp = Some (line, fp') \<Longrightarrow> \<not> line_rejected line \<Longrightarrow> offset = 0 \<Longrightarrow>
   parse_loop k fp offset sf sfs fs = parse_loop k fp' (s64 (GetSize sf)) sf sfs fs"
  by (subst parse_loop.simps)
     (auto simp: line_rejected_def line_scan_def line_specpath_def Let_def)

lemma parse_loop_push:
  "fgets (k + 2) fp = Some (line, fp') \<Longrightarrow> \<not> line_rejected line \<Longrightarrow> offset \<noteq> 0 \<Longrightarrow>
   parse_loop k fp offset sf sfs fs =
     (case StorageFile_new (line_specpath line) offset (line_fsize line) fs of
        (sf', fs') \<Rightarrow> parse_loop k fp' (s64 (offset + line_fsize line)) sf (sfs @ [sf']) fs')"
  by (subst parse_loop.simps)
     (auto simp: line_rejected_def line_scan_def line_specpath_def line_fsize_def Let_def)

text \<open>Induction over the loop: a property of \<open>parse_loop\<close> follows from the four cases of
  one iteration.\<close>

lemma parse_loop_cases_induct [case_names eof reject first push]:
  assumes "\<And>fp offset sfs fs. fgets (k + 2) fp = None \<Longrightarrow> P fp offset sfs fs"
    and "\<And>fp offset sfs fs line fp'.
           fgets (k + 2) fp = Some (line, fp') \<Longrightarrow> line_rejected line \<Longrightarrow> P fp offset sfs fs"
    and "\<And>fp offset sfs fs line fp'.
           fgets (k + 2) fp = Some (line, fp') \<Longrightarrow> \<not> line_rejected line \<Longrightarrow> offset = 0 \<Longrightarrow>
           P fp' (s64 (GetSize sf)) sfs fs \<Longrightarrow> P fp offset sfs fs"
    and "\<And>fp offset sfs fs line fp' sf' fs'.
           fgets (k + 2) fp = Some (line, fp') \<Longrightarrow> \<not> line_rejected line \<Longrightarrow> offset \<noteq> 0 \<Longrightarrow>
           StorageFile_new (line_specpath line) offset (line_fsize line) fs = (sf', fs') \<Longrightarrow>
           P fp' (s64 (offset + line_fsize line)) (sfs @ [sf']) fs' \<Longrightarrow> P fp offset sfs fs"
  shows "P fp offset sfs fs"
proof (induction fp arbitrary: offset sfs fs rule: length_induct)
  case (1 fp offset sfs fs)
  show ?case
  proof (cases "fgets (k + 2) fp")
    case None
    then show ?thesis by (rule assms(1))
  next
    case (Some a)
    then obtain line fp' where g: "fgets (k + 2) fp = Some (line, fp')"
      by (cases a) simp
    from fgets_shorter [OF g] have sh: "length fp' < length fp" .
    show ?thesis
    proof (cases "line_rejected line")
      case True
      with g show ?thesis by (rule assms(2))
    next
      case nr: False
      show ?thesis
      proof (cases "offset = 0")
        case True
        from "1.IH" sh have "P fp' (s64 (GetSize sf)) sfs fs" by blast
        with g nr True show ?thesis by (rule assms(3))
      next
        case False
        obtain sf' fs' where n: "StorageFile_new (line_specpath line) offset (line_fsize line) fs = (sf', fs')"
          by (metis prod.exhaust)
        from "1.IH" sh have "P fp' (s64 (offset + line_fsize line)) (sfs @ [sf']) fs'" by blast
        with g nr False n show ?thesis by (rule assms(4))
      qed
    qed
  qed
qed

lemma parse_loop_ret:
  "fst (parse_loop k fp offset sf sfs fs) = 0 \<or> fst (parse_loop k fp offset sf sfs fs) = - 1"
proof (induction fp offset sfs fs rule: parse_loop_cases_induct [where k = k and sf = sf])
  case (eof fp offset sfs fs)
  then show ?case by (simp add: parse_loop_eof)
next
  case (reject fp offset sfs fs line fp')
  then show ?case by (simp add: parse_loop_reject)
next
  case (first fp offset sfs fs line fp')
  then show ?case by (simp add: parse_loop_first)
next
  case (push fp offset sfs fs line fp' sf' fs')
  then show ?case by (simp add: parse_loop_push)
qed

lemma ParseSpec_ret: "ParseSpec k s fs sf = (r, s', fs') \<Longrightarrow> r = 0 \<or> r = - 1"
proof -
  assume a: "ParseSpec k s fs sf = (r, s', fs')"
  show ?thesis
  proof (cases "os_fopen_rb fs (GetSpecPathName sf)")
    case None
    with a show ?thesis by (simp add: ParseSpec_def)
  next
    case (Some fp)
    with a have "r = fst (parse_loop k fp 0 sf (st_sfs s) fs)"
      by (auto simp: ParseSpec_def split: prod.splits)
    with parse_loop_ret [of k fp 0 sf "st_sfs s" fs] show ?thesis by simp
  qed
qed

lemma fgets_lines_eof: "fgets (k + 2) fp = None \<Longrightarrow> fgets_lines k fp = []"
  by (subst fgets_lines.simps) simp

lemma fgets_lines_cons:
  "fgets (k + 2) fp = Some (line, fp') \<Longrightarrow> fgets_lines k fp = line # fgets_lines k fp'"
  by (subst fgets_lines.simps) simp


lemma find_in_None_iff: "find_in sub s \<noteq> None \<longleftrightarrow> (\<exists>a b. s = a @ sub @ b)"
proof (induction s)
  case Nil
  then show ?case by auto
next
  case (Cons x xs)
  show ?case
  proof (cases "take (length sub) (x # xs) = sub")
    case True
    then have "x # xs = [] @ sub @ drop (length sub) (x # xs)"
      by (metis append_Nil append_take_drop_id)
    then have "\<exists>a b. x # xs = a @ sub @ b" by blast
    with True show ?thesis by simp
  next
    case False
    have "(\<exists>a b. x # xs = a @ sub @ b) \<longleftrightarrow> (\<exists>a b. xs = a @ sub @ b)"
    proof
      assume "\<exists>a b. x # xs = a @ sub @ b"
      then obtain a b where ab: "x # xs = a @ sub @ b" by blast
      show "\<exists>a b. xs = a @ sub @ b"
      proof (cases a)
        case Nil
        with ab have "take (length sub) (x # xs) = sub" by simp
        with False show ?thesis by simp
      next
        case (Cons y a')
        with ab have "xs = a' @ sub @ b" by simp
        then show ?thesis by blast
      qed
    next
      assume "\<exists>a b. xs = a @ sub @ b"
      then obtain a b where "xs = a @ sub @ b" by blast
      then have "x # xs = (x # a) @ sub @ b" by simp
      then show "\<exists>a b. x # xs = a @ sub @ b" by blast
    qed
    with False Cons.IH show ?thesis by simp
  qed
qed

lemma str_find_0_iff: "str_find s sub 0 \<noteq> None \<longleftrightarrow> (\<exists>a b. s = a @ sub @ b)"
  using find_in_None_iff [of sub s] by (simp add: str_find_def)

lemma take_1_sep_iff:
  "take 1 p = MULTIFILE_PATHNAME_FILE_SEP \<longleftrightarrow> (\<exists>r. p = MULTIFILE_PATHNAME_FILE_SEP @ r)"
  by (cases p) (auto simp: MULTIFILE_PATHNAME_FILE_SEP_def)

lemma unsafe_path_code:
  "unsafe_path p \<longleftrightarrow>
     take 1 p = MULTIFILE_PATHNAME_FILE_SEP \<or> str_find p ''..'' 0 \<noteq> None"
  unfolding unsafe_path_def take_1_sep_iff str_find_0_iff ..

lemma unsafe_rejected: "unsafe_path (line_specpath line) \<Longrightarrow> line_rejected line"
  by (auto simp: unsafe_path_code line_rejected_def)



lemma StorageFile_new_fields:
  "StorageFile_new p start sz fs = (sf, fs') \<Longrightarrow>
   sf_spec_pathname sf = p \<and> sf_start sf = start \<and> sf_end sf = s64 (s64 (start + sz) - 1)"
  by (auto simp: StorageFile_new_def Let_def split: if_splits prod.splits)

text \<open>What the loop returns, and what it appends to the vector.\<close>

lemma parse_loop_result:
  "\<exists>added. fst (snd (parse_loop k fp offset sf sfs fs)) = sfs @ added \<and>
      (\<forall>f \<in> set added. \<exists>line \<in> set (fgets_lines k fp).
          \<not> line_rejected line \<and> sf_spec_pathname f = line_specpath line) \<and>
      (fst (parse_loop k fp offset sf sfs fs) =
         (if \<exists>line \<in> set (fgets_lines k fp). line_rejected line then - 1 else 0))"
proof (induction fp offset sfs fs rule: parse_loop_cases_induct [where k = k and sf = sf])
  case (eof fp offset sfs fs)
  then show ?case by (simp add: parse_loop_eof fgets_lines_eof)
next
  case (reject fp offset sfs fs line fp')
  then show ?case by (simp add: parse_loop_reject fgets_lines_cons)
next
  case (first fp offset sfs fs line fp')
  then show ?case by (auto simp: parse_loop_first fgets_lines_cons)
next
  case (push fp offset sfs fs line fp' sf' fs')
  from push.IH obtain added where
    a: "fst (snd (parse_loop k fp' (s64 (offset + line_fsize line)) sf (sfs @ [sf']) fs')) =
          (sfs @ [sf']) @ added"
    and b: "\<forall>f \<in> set added. \<exists>line \<in> set (fgets_lines k fp').
          \<not> line_rejected line \<and> sf_spec_pathname f = line_specpath line"
    and c: "fst (parse_loop k fp' (s64 (offset + line_fsize line)) sf (sfs @ [sf']) fs') =
         (if \<exists>line \<in> set (fgets_lines k fp'). line_rejected line then - 1 else 0)"
    by blast
  from StorageFile_new_fields [OF push.hyps(4)] have p: "sf_spec_pathname sf' = line_specpath line"
    by simp
  have eq: "parse_loop k fp offset sf sfs fs =
      parse_loop k fp' (s64 (offset + line_fsize line)) sf (sfs @ [sf']) fs'"
    using push.hyps by (simp add: parse_loop_push)
  have l: "fgets_lines k fp = line # fgets_lines k fp'"
    using push.hyps(1) by (rule fgets_lines_cons)
  have "fst (snd (parse_loop k fp offset sf sfs fs)) = sfs @ (sf' # added)"
    using a eq by simp
  moreover have "\<forall>f \<in> set (sf' # added). \<exists>line \<in> set (fgets_lines k fp).
          \<not> line_rejected line \<and> sf_spec_pathname f = line_specpath line"
    using b p push.hyps(2) l by auto
  moreover have "fst (parse_loop k fp offset sf sfs fs) =
         (if \<exists>line \<in> set (fgets_lines k fp). line_rejected line then - 1 else 0)"
    using c eq l push.hyps(2) by simp
  ultimately show ?case by blast
qed





















lemma ParseSpec_ok:
  assumes "os_fopen_rb fs (GetSpecPathName sf) = Some mf"
    and "\<forall>line \<in> set (fgets_lines k mf). \<not> line_rejected line"
  shows "fst (ParseSpec k s fs sf) = 0"
  using assms parse_loop_result [of k mf 0 sf "st_sfs s" fs]
  by (auto simp: ParseSpec_def split: prod.splits)


lemma reserved_outermost:
  "s\<lparr>st_reserved_size := S, st_state := c\<rparr> = s\<lparr>st_state := c, st_reserved_size := S\<rparr>"
  "s\<lparr>st_reserved_size := S, st_spec_size := v\<rparr> = s\<lparr>st_spec_size := v, st_reserved_size := S\<rparr>"
  "s\<lparr>st_reserved_size := S, st_sfs := l\<rparr> = s\<lparr>st_sfs := l, st_reserved_size := S\<rparr>"
  by (cases s; simp)+

lemma Write_COMPLETE_reserved:
  "st_state s = STOR_STATE_MFSPEC_COMPLETE \<Longrightarrow>
   Write k (s\<lparr>st_reserved_size := S\<rparr>) fs buf nbyte offset
     = with_reserved S (Write k s fs buf nbyte offset)"
proof (induction nbyte arbitrary: fs buf offset rule: less_induct)
  case (less nbyte)
  from less.prems have c: "st_state (s\<lparr>st_reserved_size := S\<rparr>) = STOR_STATE_MFSPEC_COMPLETE"
    by simp
  show ?case
  proof (cases "FindStorageFile (st_sfs s) offset")
    case None
    then show ?thesis
      by (simp add: Write_COMPLETE [OF c] Write_COMPLETE [OF less.prems] with_reserved_def)
  next
    case (Some sf)
    obtain first second fs1 where wb: "WriteBuffer sf fs buf nbyte offset = ((first, second), fs1)"
      by (metis prod.exhaust)
    show ?thesis
    proof (cases "first \<noteq> - 1 \<and> second > 0")
      case False
      with Some wb show ?thesis
        by (auto simp: Write_COMPLETE [OF c] Write_COMPLETE [OF less.prems] with_reserved_def)
    next
      case True
      from FindStorageFile_in_range [OF Some] WriteBuffer_tail [OF wb] True
      have "second < int nbyte" by simp
      with True size_t_of_le [of second] have "size_t_of second < nbyte" by linarith
      from less.IH [OF this less.prems]
      have "Write k (s\<lparr>st_reserved_size := S\<rparr>) fs1 (drop (nat first) buf) (size_t_of second) (offset + first)
            = with_reserved S (Write k s fs1 (drop (nat first) buf) (size_t_of second) (offset + first))" .
      with Some wb True show ?thesis
        by (simp add: Write_COMPLETE [OF c] Write_COMPLETE [OF less.prems] with_reserved_def
                 split: prod.splits)
    qed
  qed
qed

lemma ParseSpec_reserved:
  "ParseSpec k (s\<lparr>st_reserved_size := S\<rparr>) fs sf = with_reserved S (ParseSpec k s fs sf)"
  by (simp add: ParseSpec_def with_reserved_def split: option.splits prod.splits)

lemma WriteSpecPart_reserved:
  "WriteSpecPart k (s\<lparr>st_reserved_size := S\<rparr>) fs sf buf nbyte offset
     = with_reserved S (WriteSpecPart k s fs sf buf nbyte offset)"
proof -
  obtain first second fs1 where wb: "WriteBuffer sf fs buf nbyte offset = ((first, second), fs1)"
    by (metis prod.exhaust)
  obtain pret s2 fs2 where ps:
    "ParseSpec k (s\<lparr>st_state := STOR_STATE_MFSPEC_COMPLETE\<rparr>) fs1 sf = (pret, s2, fs2)"
    by (metis prod.exhaust)
  from ParseSpec_state [OF ps] have c: "st_state s2 = STOR_STATE_MFSPEC_COMPLETE" by simp
  have ps': "ParseSpec k (s\<lparr>st_state := STOR_STATE_MFSPEC_COMPLETE, st_reserved_size := S\<rparr>) fs1 sf
      = (pret, s2\<lparr>st_reserved_size := S\<rparr>, fs2)"
    using ParseSpec_reserved [where s = "s\<lparr>st_state := STOR_STATE_MFSPEC_COMPLETE\<rparr>"
        and S = S and k = k and fs = fs1 and sf = sf] ps
    by (simp add: with_reserved_def)
  show ?thesis
    by (subst (1 2) WriteSpecPart.simps)
       (simp add: wb ps ps' reserved_outermost Write_COMPLETE_reserved [OF c] with_reserved_def
             split: prod.splits)
qed

lemma Write_multifile_reserved:
  assumes "(st_state s = STOR_STATE_INIT \<and>
            strncmp_eq buf MULTIFILE_PATHNAME (length MULTIFILE_PATHNAME)) \<or>
           st_state s = STOR_STATE_MFSPEC_SIZE_KNOWN \<or> st_state s = STOR_STATE_MFSPEC_COMPLETE"
  shows "Write k (s\<lparr>st_reserved_size := S\<rparr>) fs buf nbyte offset
           = with_reserved S (Write k s fs buf nbyte offset)"
  using assms
proof (elim disjE conjE)
  assume "st_state s = STOR_STATE_MFSPEC_COMPLETE"
  then show ?thesis by (rule Write_COMPLETE_reserved)
next
  assume k: "st_state s = STOR_STATE_MFSPEC_SIZE_KNOWN"
  show ?thesis
    by (subst (1 2) Write.simps)
       (simp add: k WriteSpecPart_reserved with_reserved_def split: list.splits)
next
  assume i: "st_state s = STOR_STATE_INIT"
    and m: "strncmp_eq buf MULTIFILE_PATHNAME (length MULTIFILE_PATHNAME)"
  have ws: "WriteSpecPart k (s\<lparr>st_spec_size := v, st_sfs := st_sfs s @ [sf], st_reserved_size := S\<rparr>)
          fs1 sf buf nbyte off
        = with_reserved S
            (WriteSpecPart k (s\<lparr>st_spec_size := v, st_sfs := st_sfs s @ [sf]\<rparr>) fs1 sf buf nbyte off)"
    for v sf fs1 off
    using WriteSpecPart_reserved
      [where s = "s\<lparr>st_spec_size := v, st_sfs := st_sfs s @ [sf]\<rparr>" and S = S and k = k
         and fs = fs1 and sf = sf and buf = buf and nbyte = nbyte and offset = off]
    by simp
  show ?thesis
    by (subst (1 2) Write.simps)
       (simp add: i m Let_def ws reserved_outermost with_reserved_def split: prod.splits)
qed

lemma os_open_ok:
  assumes "os_open fs p = (fd, fs1)" and "0 \<le> fd"
  shows "fd_path fs1 fd = Some p \<and> files fs1 p \<noteq> None"
  using assms by (auto simp: os_open_def fd_path_def nth_append split: if_splits)

lemma file_size_nonneg: "fd_content fs fd = Some c \<Longrightarrow> 0 \<le> file_size fs fd"
  by (simp add: file_size_def)

lemma file_resize_size:
  assumes "file_resize fs fd S = (r, fs')" and "0 \<le> r"
  shows "file_size fs' fd = S"
proof -
  from assms obtain p c where p: "fd_path fs fd = Some p" and c: "files fs p = Some c"
    and S: "0 \<le> S"
    and fs': "fs' = fs\<lparr>files := (files fs)(p \<mapsto> take (nat S) c @ replicate (nat S - length c) NUL)\<rparr>"
    by (auto simp: file_resize_def os_ftruncate_def split: option.splits if_splits)
  from p have "fd_path fs' fd = Some p" by (simp add: fs' fd_path_def split: if_splits)
  with fs' S show ?thesis
    by (simp add: file_size_def fd_content_def min_def)
qed

lemma length_write_at: "length c \<le> length (write_at c off d)"
  by (simp add: write_at_def)

lemma os_pwrite_size: "os_pwrite fs fd buf nbyte off = (r, fs') \<Longrightarrow> file_size fs fd \<le> file_size fs' fd"
proof -
  assume a: "os_pwrite fs fd buf nbyte off = (r, fs')"
  show ?thesis
  proof (cases "fs' = fs")
    case True
    then show ?thesis by simp
  next
    case False
    with a obtain p c m where p: "fd_path fs fd = Some p" and c: "files fs p = Some c"
      and fs': "fs' = fs\<lparr>files := (files fs)(p \<mapsto> write_at c (nat off) (take m buf))\<rparr>"
      by (auto simp: os_pwrite_def Let_def split: option.splits if_splits)
    from p have "fd_path fs' fd = Some p" by (simp add: fs' fd_path_def split: if_splits)
    with fs' p c length_write_at [of c "nat off" "take m buf"] show ?thesis
      by (simp add: file_size_def fd_content_def)
  qed
qed

lemma OpenSingleFile_replays:
  assumes "OpenSingleFile s fs = (r, s', fs')" and "0 \<le> r"
  shows "st_state s' = STOR_STATE_SINGLE_FILE \<and>
         st_reserved_size s \<le> file_size fs' (st_single_fd s') \<and>
         (st_reserved_size s \<noteq> - 1 \<longrightarrow> file_size fs' (st_single_fd s') = st_reserved_size s)"
proof -
  obtain fd fs1 where o: "os_open fs (st_os_pathname s) = (fd, fs1)"
    by (metis prod.exhaust)
  have fd: "0 \<le> fd"
  proof (rule ccontr)
    assume "\<not> 0 \<le> fd"
    with o assms(1) have "r < 0"
      by (auto simp: OpenSingleFile_def ResizeReserved_def Let_def file_resize_bad
               split: if_splits prod.splits)
    with assms(2) show False by simp
  qed
  from os_open_ok [OF o fd] obtain c where c: "fd_content fs1 fd = Some c"
    by (auto simp: fd_content_def)
  show ?thesis
  proof (cases "st_reserved_size s = - 1")
    case True
    with o fd assms(1) have "s' = s\<lparr>st_state := STOR_STATE_SINGLE_FILE, st_single_fd := fd\<rparr>"
      and "fs' = fs1"
      by (auto simp: OpenSingleFile_def Let_def)
    with True file_size_nonneg [OF c] show ?thesis by simp
  next
    case False
    obtain r1 fs2 where fr: "file_resize fs1 fd (st_reserved_size s) = (r1, fs2)"
      by (metis prod.exhaust)
    with False o fd assms have "s' = s\<lparr>st_state := STOR_STATE_SINGLE_FILE, st_single_fd := fd\<rparr>"
      and "fs' = fs2" and "0 \<le> r1"
      by (auto simp: OpenSingleFile_def ResizeReserved_def Let_def split: if_splits)
    with file_resize_size [OF fr] show ?thesis by simp
  qed
qed

section \<open>The claims\<close>

subsection \<open>C1: a failed tail write\<close>

text \<open>
  Claim C1, as amended. When a \<^verbatim>\<open>Write\<close> in \<^verbatim>\<open>STOR_STATE_MFSPEC_COMPLETE\<close> straddles a file
  boundary, the head write into the first file succeeds and the recursive write of the tail
  fails, the call returns the negative result of the tail write, not the head byte count.
  The same holds for a \<^verbatim>\<open>WriteSpecPart\<close> that completes the manifest: after a successful
  parse, a failing write of the tail is what the call returns.
\<close>

theorem tail_failure_propagates:
  "(st_state s = STOR_STATE_MFSPEC_COMPLETE \<and>
    FindStorageFile (st_sfs s) offset = Some sf \<and>
    WriteBuffer sf fs buf nbyte offset = ((first, second), fs1) \<and> first \<noteq> - 1 \<and> 0 < second \<and>
    Write k s fs1 (drop (nat first) buf) (size_t_of second) (offset + first) = (ret, s2, fs2) \<and>
    ret < 0
    \<longrightarrow> Write k s fs buf nbyte offset = (ret, s2, fs2)) \<and>
   (WriteBuffer sf fs buf nbyte offset = ((first, second), fs1) \<and> first \<noteq> - 1 \<and>
    offset + first = GetEnd sf + 1 \<and>
    ParseSpec k (s\<lparr>st_state := STOR_STATE_MFSPEC_COMPLETE\<rparr>) fs1 sf = (pret, s2, fs2) \<and>
    \<not> pret < 0 \<and>
    Write k s2 fs2 (drop (nat first) buf) (size_t_of second) (offset + first) = (ret, s3, fs3) \<and>
    ret < 0
    \<longrightarrow> WriteSpecPart k s fs sf buf nbyte offset = (ret, s3, fs3))"
proof (intro conjI impI)
  assume a: "st_state s = STOR_STATE_MFSPEC_COMPLETE \<and>
    FindStorageFile (st_sfs s) offset = Some sf \<and>
    WriteBuffer sf fs buf nbyte offset = ((first, second), fs1) \<and> first \<noteq> - 1 \<and> 0 < second \<and>
    Write k s fs1 (drop (nat first) buf) (size_t_of second) (offset + first) = (ret, s2, fs2) \<and>
    ret < 0"
  then have c: "st_state s = STOR_STATE_MFSPEC_COMPLETE" by simp
  from a show "Write k s fs buf nbyte offset = (ret, s2, fs2)"
    by (subst Write_COMPLETE [OF c]) simp
next
  assume a: "WriteBuffer sf fs buf nbyte offset = ((first, second), fs1) \<and> first \<noteq> - 1 \<and>
    offset + first = GetEnd sf + 1 \<and>
    ParseSpec k (s\<lparr>st_state := STOR_STATE_MFSPEC_COMPLETE\<rparr>) fs1 sf = (pret, s2, fs2) \<and>
    \<not> pret < 0 \<and>
    Write k s2 fs2 (drop (nat first) buf) (size_t_of second) (offset + first) = (ret, s3, fs3) \<and>
    ret < 0"
  then have e: "GetEnd sf + 1 = offset + first" by simp
  from a show "WriteSpecPart k s fs sf buf nbyte offset = (ret, s3, fs3)"
    by (subst WriteSpecPart.simps) (simp add: e)
qed

theorem tail_failure_propagates_witness:
  "st_state s_bad = STOR_STATE_MFSPEC_COMPLETE \<and>
   FindStorageFile (st_sfs s_bad) 40 = Some sf_a \<and>
   fst head_bad = (2, 2) \<and> fst tail_bad < 0 \<and>
   Write 2080 s_bad fs_bad ''wxyz'' 4 40 = tail_bad \<and>
   fst head_leech = (34, 3) \<and> fst parse_leech = 0 \<and> fst tail_leech < 0 \<and>
   WriteSpecPart 2080 s_leech fs_m sf_m buf_leech 37 0 = tail_leech"
proof -
  have c: "st_state s_bad = STOR_STATE_MFSPEC_COMPLETE" by code_simp
  have f: "FindStorageFile (st_sfs s_bad) 40 = Some sf_a" by code_simp
  have h: "fst head_bad = (2, 2)" by code_simp
  have t: "fst tail_bad = - 1" by code_simp
  obtain fs1 where wb: "WriteBuffer sf_a fs_bad ''wxyz'' 4 40 = ((2, 2), fs1)"
    using h by (cases head_bad) (simp add: head_bad_def)
  then have fs1: "snd head_bad = fs1" by (simp add: head_bad_def)
  obtain s2 fs2 where tl:
    "Write 2080 s_bad fs1 (drop (nat 2) ''wxyz'') (size_t_of 2) (40 + 2) = (- 1, s2, fs2)"
    using t fs1 by (cases tail_bad) (simp add: tail_bad_def)
  from tail_failure_propagates [of s_bad 40 sf_a fs_bad "''wxyz''" 4 2 2 fs1 2080 "- 1" s2 fs2]
    c f wb tl
  have "Write 2080 s_bad fs_bad ''wxyz'' 4 40 = (- 1, s2, fs2)" by simp
  with tl fs1 have "Write 2080 s_bad fs_bad ''wxyz'' 4 40 = tail_bad"
    by (simp add: tail_bad_def)
  note w = this
  have h': "fst head_leech = (34, 3)" by code_simp
  have e': "0 + 34 = GetEnd sf_m + 1" by code_simp
  have p': "fst parse_leech = 0" by code_simp
  have t': "fst tail_leech = - 1" by code_simp
  obtain fs1' where wb': "WriteBuffer sf_m fs_m buf_leech 37 0 = ((34, 3), fs1')"
    using h' by (cases head_leech) (simp add: head_leech_def)
  then have fs1': "snd head_leech = fs1'" by (simp add: head_leech_def)
  obtain s2' fs2' where ps':
    "ParseSpec 2080 (s_leech\<lparr>st_state := STOR_STATE_MFSPEC_COMPLETE\<rparr>) fs1' sf_m = (0, s2', fs2')"
    using p' fs1' by (cases parse_leech) (simp add: parse_leech_def)
  then have s2': "fst (snd parse_leech) = s2'" "snd (snd parse_leech) = fs2'"
    using fs1' by (simp_all add: parse_leech_def)
  obtain s3' fs3' where tl':
    "Write 2080 s2' fs2' (drop (nat 34) buf_leech) (size_t_of 3) (0 + 34) = (- 1, s3', fs3')"
    using t' s2' by (cases tail_leech) (simp add: tail_leech_def)
  from tail_failure_propagates
    [where s = s_leech and offset = 0 and sf = sf_m and fs = fs_m and buf = buf_leech
       and nbyte = 37 and first = 34 and second = 3 and ?fs1.0 = fs1' and k = 2080
       and ret = "- 1" and ?s2.0 = s2' and ?fs2.0 = fs2' and pret = 0 and ?s3.0 = s3'
       and ?fs3.0 = fs3']
    wb' e' ps' tl'
  have "WriteSpecPart 2080 s_leech fs_m sf_m buf_leech 37 0 = (- 1, s3', fs3')" by simp
  with tl' s2' have w': "WriteSpecPart 2080 s_leech fs_m sf_m buf_leech 37 0 = tail_leech"
    by (simp add: tail_leech_def)
  from c f h t w h' p' t' w'
  show ?thesis by simp
qed

text \<open>
  Claim C1 as stated fails. In the seeded volume, the four bytes written at offset 40
  straddle the files \<open>a\<close> and \<open>d\<close>: the head, two bytes, is written to \<open>a\<close>, the write of
  the tail fails, and \<^verbatim>\<open>Write\<close> returns \<open>-1\<close>, not \<open>2\<close>. In the leeched volume, the first
  chunk holds the whole manifest and three content bytes: the 34 bytes of the manifest are
  written, the parse succeeds, the write of the tail fails, and \<^verbatim>\<open>WriteSpecPart\<close> (and the
  \<^verbatim>\<open>Write\<close> that called it) returns \<open>-1\<close>, not \<open>34\<close>.
\<close>

theorem partial_write_counterexample:
  "st_state s_bad = STOR_STATE_MFSPEC_COMPLETE \<and>
   FindStorageFile (st_sfs s_bad) 40 = Some sf_a \<and>
   fst head_bad = (2, 2) \<and>
   files (snd head_bad) ''a'' = Some [NUL, NUL, CHR ''w'', CHR ''x''] \<and>
   fst tail_bad = - 1 \<and>
   fst (Write 2080 s_bad fs_bad ''wxyz'' 4 40) = - 1 \<and>
   fst head_leech = (34, 3) \<and> GetEnd sf_m + 1 = 34 \<and> fst parse_leech = 0 \<and>
   fst tail_leech = - 1 \<and>
   fst (WriteSpecPart 2080 s_leech fs_m sf_m buf_leech 37 0) = - 1 \<and>
   fst (Write 2080 (st_init ''v'') fs_dir buf_leech 37 0) = - 1"
  by code_simp

text \<open>
  What the failed call leaves of the head is not part of the claim. Every line of the
  manifest opens a descriptor of its own, and two lines may name one file: when the
  manifest names \<open>a\<close> twice (4 bytes, then 2 bytes) before the directory \<open>d\<close>, the write of
  \<open>ABCDEFGH\<close> at offset 42 puts \<open>ABCD\<close> in \<open>a\<close>, then \<open>EF\<close> over it, fails on \<open>d\<close> and returns
  \<open>-1\<close>.
\<close>

lemma head_overwritten_example:
  "map (\<lambda>f. (sf_spec_pathname f, GetStart f, GetEnd f, sf_fd f))
       (st_sfs (fst (Storage_new 2080 ''m'' fs_dup)))
     = [(''m'', 0, 41, 0), (''a'', 42, 45, 1), (''a'', 46, 47, 2), (''d'', 48, 50, - 1)] \<and>
   fst (Write 2080 (fst (Storage_new 2080 ''m'' fs_dup)) (snd (Storage_new 2080 ''m'' fs_dup))
          ''ABCDEFGH'' 8 42) = - 1 \<and>
   files (snd (snd (Write 2080 (fst (Storage_new 2080 ''m'' fs_dup))
                      (snd (Storage_new 2080 ''m'' fs_dup)) ''ABCDEFGH'' 8 42))) ''a''
     = Some ''EFCD''"
  by code_simp

subsection \<open>C2: the vector of files after the parse\<close>




text \<open>
  The bound on the sizes is needed as well. The size \<open>2 ^ 63 - 1\<close> of the file \<open>a\<close>, which starts
  at 56, is read as it is; \<^verbatim>\<open>end_\<close> and the running offset wrap, and the file \<open>b\<close> starts at
  a negative offset.
\<close>

lemma size_overflow_example:
  "fst (parse_man manifest_big) = 0 \<and>
   (\<forall>line \<in> set (tl (fgets_lines 2080 manifest_big)). 0 \<le> line_fsize line) \<and>
   map (\<lambda>f. (sf_spec_pathname f, GetStart f, GetEnd f)) (st_sfs (fst (snd (parse_man manifest_big))))
     = [(''m'', 0, 55), (''a'', 56, - 9223372036854775754),
        (''b'', - 9223372036854775753, - 9223372036854775753)] \<and>
   \<not> sorted_contiguous (st_sfs (fst (snd (parse_man manifest_big))))"
  by code_simp

subsection \<open>C3: unsafe paths\<close>

text \<open>
  Claim C3, as amended. A manifest line whose path starts with the separator or holds \<open>..\<close>
  ends the loop of \<^verbatim>\<open>ParseSpec\<close> with \<open>-1\<close>, and nothing is appended for it. So every file
  that \<^verbatim>\<open>ParseSpec\<close> appends to the vector has a path that neither starts with the separator
  nor holds \<open>..\<close>, and \<^verbatim>\<open>ParseSpec\<close> returns \<open>-1\<close> when the manifest has such a line. The
  first file of the vector, which the caller of \<^verbatim>\<open>ParseSpec\<close> creates, is not covered.
\<close>

theorem unsafe_paths_rejected:
  "(fgets (k + 2) fp = Some (line, fp') \<and> unsafe_path (line_specpath line) \<longrightarrow>
      parse_loop k fp offset sf sfs fs = (- 1, sfs, fs)) \<and>
   (ParseSpec k s fs sf = (r, s', fs') \<longrightarrow>
      (\<exists>added. st_sfs s' = st_sfs s @ added \<and>
         (\<forall>f \<in> set added. \<not> unsafe_path (sf_spec_pathname f))) \<and>
      (\<forall>mf. os_fopen_rb fs (GetSpecPathName sf) = Some mf \<and>
            (\<exists>l \<in> set (fgets_lines k mf). unsafe_path (line_specpath l)) \<longrightarrow> r = - 1))"
proof (intro conjI impI)
  assume "fgets (k + 2) fp = Some (line, fp') \<and> unsafe_path (line_specpath line)"
  then show "parse_loop k fp offset sf sfs fs = (- 1, sfs, fs)"
    by (simp add: parse_loop_reject unsafe_rejected)
next
  assume a: "ParseSpec k s fs sf = (r, s', fs')"
  show "\<exists>added. st_sfs s' = st_sfs s @ added \<and>
         (\<forall>f \<in> set added. \<not> unsafe_path (sf_spec_pathname f))"
  proof (cases "os_fopen_rb fs (GetSpecPathName sf)")
    case None
    with a have "st_sfs s' = st_sfs s @ []" by (simp add: ParseSpec_def)
    then show ?thesis by fastforce
  next
    case (Some mf)
    with a have s': "st_sfs s' = fst (snd (parse_loop k mf 0 sf (st_sfs s) fs))"
      by (auto simp: ParseSpec_def split: prod.splits)
    from parse_loop_result [of k mf 0 sf "st_sfs s" fs] obtain added where
      ad: "fst (snd (parse_loop k mf 0 sf (st_sfs s) fs)) = st_sfs s @ added"
      and ok: "\<forall>f \<in> set added. \<exists>line \<in> set (fgets_lines k mf).
          \<not> line_rejected line \<and> sf_spec_pathname f = line_specpath line"
      by blast
    from ok have "\<forall>f \<in> set added. \<not> unsafe_path (sf_spec_pathname f)"
      using unsafe_rejected by metis
    with ad s' show ?thesis by auto
  qed
next
  assume a: "ParseSpec k s fs sf = (r, s', fs')"
  show "\<forall>mf. os_fopen_rb fs (GetSpecPathName sf) = Some mf \<and>
            (\<exists>l \<in> set (fgets_lines k mf). unsafe_path (line_specpath l)) \<longrightarrow> r = - 1"
  proof (intro allI impI)
    fix mf
    assume b: "os_fopen_rb fs (GetSpecPathName sf) = Some mf \<and>
            (\<exists>l \<in> set (fgets_lines k mf). unsafe_path (line_specpath l))"
    with a have r: "r = fst (parse_loop k mf 0 sf (st_sfs s) fs)"
      by (auto simp: ParseSpec_def split: prod.splits)
    from b have "\<exists>l \<in> set (fgets_lines k mf). line_rejected l"
      using unsafe_rejected by blast
    with parse_loop_result [of k mf 0 sf "st_sfs s" fs] r show "r = - 1" by auto
  qed
qed

theorem unsafe_paths_rejected_witness:
  "unsafe_path (line_specpath ''../evil 4\<newline>'') \<and>
   ''../evil 4\<newline>'' \<in> set (fgets_lines 2080 manifest_evil) \<and>
   fst (ParseSpec 2080 s_evil fs_evil sf_evil) = - 1 \<and>
   map sf_spec_pathname (st_sfs (fst (snd (ParseSpec 2080 s_evil fs_evil sf_evil)))) = [''m'', ''a''] \<and>
   parse_loop 2080 ''../evil 4\<newline>b 3\<newline>'' 38 sf_evil [sf_evil] fs_evil = (- 1, [sf_evil], fs_evil)"
proof -
  have sp: "line_specpath ''../evil 4\<newline>'' = ''../evil''" by code_simp
  have "''../evil'' = [] @ ''..'' @ ''/evil''" by simp
  then have u: "unsafe_path (line_specpath ''../evil 4\<newline>'')"
    unfolding sp unsafe_path_def by blast
  have m: "''../evil 4\<newline>'' \<in> set (fgets_lines 2080 manifest_evil)" by code_simp
  have o: "os_fopen_rb fs_evil (GetSpecPathName sf_evil) = Some manifest_evil" by code_simp
  have g: "fgets (2080 + 2) ''../evil 4\<newline>b 3\<newline>'' = Some (''../evil 4\<newline>'', ''b 3\<newline>'')" by code_simp
  have names: "map sf_spec_pathname (st_sfs (fst (snd (ParseSpec 2080 s_evil fs_evil sf_evil)))) = [''m'', ''a'']"
    by code_simp
  obtain r s' fs' where p: "ParseSpec 2080 s_evil fs_evil sf_evil = (r, s', fs')"
    by (metis prod.exhaust)
  from unsafe_paths_rejected
    [where k = 2080 and fp = "''../evil 4\<newline>b 3\<newline>''" and line = "''../evil 4\<newline>''"
       and fp' = "''b 3\<newline>''" and offset = 38 and sf = sf_evil and sfs = "[sf_evil]"
       and fs = fs_evil and s = s_evil and r = r and s' = s' and fs' = fs']
    u m o g p
  have "parse_loop 2080 ''../evil 4\<newline>b 3\<newline>'' 38 sf_evil [sf_evil] fs_evil = (- 1, [sf_evil], fs_evil)
        \<and> r = - 1"
    by blast
  with p u m names show ?thesis by simp
qed

text \<open>
  Claim C3 as stated fails for the first file of the vector. A \<^verbatim>\<open>Storage\<close> constructed on the
  existing manifest \<open>/tmp/s\<close> is in \<^verbatim>\<open>STOR_STATE_MFSPEC_COMPLETE\<close>, its manifest parses with
  success, and its first file has the path \<open>/tmp/s\<close>, which starts with the separator.
\<close>

theorem stored_path_counterexample:
  "st_state (fst (Storage_new 2080 ''/tmp/s'' fs_abs)) = STOR_STATE_MFSPEC_COMPLETE \<and>
   fst (ParseSpec 2080
          ((st_init ''/tmp/s'')\<lparr>st_state := STOR_STATE_MFSPEC_COMPLETE, st_sfs := [sf_abs]\<rparr>)
          (snd (StorageFile_new ''/tmp/s'' 0 34 fs_abs)) sf_abs) = 0 \<and>
   map sf_spec_pathname (st_sfs (fst (Storage_new 2080 ''/tmp/s'' fs_abs))) = [''/tmp/s'', ''a''] \<and>
   take 1 (sf_spec_pathname (st_sfs (fst (Storage_new 2080 ''/tmp/s'' fs_abs)) ! 0))
     = MULTIFILE_PATHNAME_FILE_SEP \<and>
   unsafe_path (sf_spec_pathname (st_sfs (fst (Storage_new 2080 ''/tmp/s'' fs_abs)) ! 0))"
proof -
  have 1: "st_state (fst (Storage_new 2080 ''/tmp/s'' fs_abs)) = STOR_STATE_MFSPEC_COMPLETE"
    by code_simp
  have 2: "fst (ParseSpec 2080
          ((st_init ''/tmp/s'')\<lparr>st_state := STOR_STATE_MFSPEC_COMPLETE, st_sfs := [sf_abs]\<rparr>)
          (snd (StorageFile_new ''/tmp/s'' 0 34 fs_abs)) sf_abs) = 0"
    by code_simp
  have 3: "map sf_spec_pathname (st_sfs (fst (Storage_new 2080 ''/tmp/s'' fs_abs))) = [''/tmp/s'', ''a'']"
    by code_simp
  have 4: "take 1 (sf_spec_pathname (st_sfs (fst (Storage_new 2080 ''/tmp/s'' fs_abs)) ! 0))
     = MULTIFILE_PATHNAME_FILE_SEP"
    by code_simp
  then have 5: "unsafe_path (sf_spec_pathname (st_sfs (fst (Storage_new 2080 ''/tmp/s'' fs_abs)) ! 0))"
    by (simp add: unsafe_path_code)
  from 1 2 3 4 5 show ?thesis by blast
qed

subsection \<open>C4: the size field\<close>




subsection \<open>C5: the binary search\<close>

text \<open>
  Claim C5. When the vector of files is sorted by start and contiguous, the binary search
  \<^verbatim>\<open>FindStorageFile\<close> returns, for an offset inside the range \<open>[start, end + 1)\<close> of
  some file, that file, and no other file's range holds the offset; for an offset in no
  file's range it returns \<^verbatim>\<open>NULL\<close>. The ranges cover every offset from the first
  file's start up to the last file's end.
\<close>

theorem FindStorageFile_correct:
  assumes sc: "sorted_contiguous sfs"
  shows "(\<forall>i < length sfs. in_range (sfs ! i) offset \<longrightarrow>
            FindStorageFile sfs offset = Some (sfs ! i) \<and>
            (\<forall>j < length sfs. in_range (sfs ! j) offset \<longrightarrow> j = i)) \<and>
         ((\<forall>i < length sfs. \<not> in_range (sfs ! i) offset) \<longrightarrow>
            FindStorageFile sfs offset = None) \<and>
         (sfs \<noteq> [] \<and> GetStart (hd sfs) \<le> offset \<and> offset < GetEnd (last sfs) + 1 \<longrightarrow>
            (\<exists>i < length sfs. in_range (sfs ! i) offset))"
proof -
  have spec: "case FindStorageFile sfs offset of
      Some sf \<Rightarrow> \<exists>i < length sfs. sf = sfs ! i \<and> in_range sf offset
    | None \<Rightarrow> \<forall>i < length sfs. \<not> in_range (sfs ! i) offset"
    unfolding FindStorageFile_def
    by (rule find_loop_spec [OF sc]) auto
  have found: "FindStorageFile sfs offset = Some (sfs ! i)"
    if "i < length sfs" "in_range (sfs ! i) offset" for i
  proof (cases "FindStorageFile sfs offset")
    case None
    with spec that show ?thesis by simp
  next
    case (Some sf)
    with spec obtain k where k: "k < length sfs" "sf = sfs ! k" "in_range (sfs ! k) offset"
      by auto
    from in_range_unique [OF sc k(1,3) that] k(2) Some show ?thesis by simp
  qed
  have none: "FindStorageFile sfs offset = None"
    if "\<forall>i < length sfs. \<not> in_range (sfs ! i) offset"
  proof (cases "FindStorageFile sfs offset")
    case None
    then show ?thesis .
  next
    case (Some sf)
    with spec that show ?thesis by auto
  qed
  from found none in_range_unique [OF sc] covered [OF sc] show ?thesis
    by blast
qed

theorem FindStorageFile_correct_witness:
  "sorted_contiguous ex_sfs \<and> FindStorageFile ex_sfs 12 = Some (ex_sfs ! 1) \<and>
   FindStorageFile ex_sfs 25 = None"
proof -
  have sc: "sorted_contiguous ex_sfs"
    by (simp add: ex_sfs_def GetStart_def GetEnd_def)
  have a: "1 < length ex_sfs \<and> in_range (ex_sfs ! 1) 12"
    by (simp add: ex_sfs_def in_range_def GetStart_def GetEnd_def)
  have b: "\<forall>i < length ex_sfs. \<not> in_range (ex_sfs ! i) 25"
    by (simp add: ex_sfs_def in_range_def GetStart_def GetEnd_def less_Suc_eq numeral_3_eq_3 all_conj_distrib)
  from FindStorageFile_correct [OF sc, of 12] a
  have "FindStorageFile ex_sfs 12 = Some (ex_sfs ! 1)" by blast
  moreover from FindStorageFile_correct [OF sc, of 25] b
  have "FindStorageFile ex_sfs 25 = None" by blast
  ultimately show ?thesis using sc by simp
qed

subsection \<open>C6: \<^verbatim>\<open>WriteSpecPart\<close>\<close>

text \<open>
  Claim C6. Let \<open>(first, second)\<close> be what \<^verbatim>\<open>WriteBuffer\<close> returns for the manifest's file in a
  \<^verbatim>\<open>WriteSpecPart\<close> call that succeeds. If \<open>offset + first\<close> is the manifest's end plus one,
  the state becomes \<^verbatim>\<open>STOR_STATE_MFSPEC_COMPLETE\<close>, the manifest is parsed with success, and
  \<^verbatim>\<open>Write\<close> is called on the tail (the buffer from \<open>first\<close> on, \<open>second\<close> bytes, at
  \<open>offset + first\<close>); the result is \<open>first\<close> plus the result of that call. Otherwise the
  state becomes \<^verbatim>\<open>STOR_STATE_MFSPEC_SIZE_KNOWN\<close>, nothing else changes, and \<open>first\<close> is returned.
\<close>

theorem WriteSpecPart_transitions:
  assumes "WriteSpecPart k s fs sf buf nbyte offset = (r, s', fs')"
    and "0 \<le> r"
    and "WriteBuffer sf fs buf nbyte offset = ((first, second), fs1)"
  shows "(offset + first = GetEnd sf + 1 \<longrightarrow>
            st_state s' = STOR_STATE_MFSPEC_COMPLETE \<and>
            (\<exists>s2 fs2 ret.
               ParseSpec k (s\<lparr>st_state := STOR_STATE_MFSPEC_COMPLETE\<rparr>) fs1 sf = (0, s2, fs2) \<and>
               Write k s2 fs2 (drop (nat first) buf) (size_t_of second) (offset + first)
                 = (ret, s', fs') \<and>
               0 \<le> ret \<and> r = first + ret)) \<and>
         (offset + first \<noteq> GetEnd sf + 1 \<longrightarrow>
            s' = s\<lparr>st_state := STOR_STATE_MFSPEC_SIZE_KNOWN\<rparr> \<and> fs' = fs1 \<and> r = first)"
proof (intro conjI impI)
  from assms have ne: "first \<noteq> - 1"
    by (subst (asm) WriteSpecPart.simps) (auto split: if_splits)
  {
    assume eq: "offset + first = GetEnd sf + 1"
    obtain pret s2 fs2 where ps:
      "ParseSpec k (s\<lparr>st_state := STOR_STATE_MFSPEC_COMPLETE\<rparr>) fs1 sf = (pret, s2, fs2)"
      by (metis prod.exhaust)
    obtain ret s3 fs3 where wr:
      "Write k s2 fs2 (drop (nat first) buf) (size_t_of second) (offset + first) = (ret, s3, fs3)"
      by (metis prod.exhaust)
    from assms ne eq ps have np: "\<not> pret < 0"
      by (subst (asm) WriteSpecPart.simps) (auto split: if_splits)
    with ParseSpec_ret [OF ps] have p0: "pret = 0" by auto
    from assms ne eq ps np wr have res: "0 \<le> ret \<and> r = first + ret \<and> s' = s3 \<and> fs' = fs3"
      by (subst (asm) WriteSpecPart.simps) (auto split: if_splits)
    from ParseSpec_state [OF ps] have c: "st_state s2 = STOR_STATE_MFSPEC_COMPLETE" by simp
    with Write_terminal_same [OF _ wr] have "s3 = s2" by simp
    with c res show "st_state s' = STOR_STATE_MFSPEC_COMPLETE" by simp
    from ps p0 wr res
    show "\<exists>s2 fs2 ret.
               ParseSpec k (s\<lparr>st_state := STOR_STATE_MFSPEC_COMPLETE\<rparr>) fs1 sf = (0, s2, fs2) \<and>
               Write k s2 fs2 (drop (nat first) buf) (size_t_of second) (offset + first)
                 = (ret, s', fs') \<and>
               0 \<le> ret \<and> r = first + ret"
      by auto
  }
  {
    assume neq: "offset + first \<noteq> GetEnd sf + 1"
    with assms ne show "s' = s\<lparr>st_state := STOR_STATE_MFSPEC_SIZE_KNOWN\<rparr>" "fs' = fs1" "r = first"
      by (subst (asm) WriteSpecPart.simps; simp)+
  }
qed

theorem WriteSpecPart_transitions_witness:
  "fst (WriteSpecPart 2080 s_m38 fs_m38 sf_m38 buf_ok 45 0) = 45 \<and>
   fst (WriteBuffer sf_m38 fs_m38 buf_ok 45 0) = (38, 7) \<and>
   st_state (fst (snd (WriteSpecPart 2080 s_m38 fs_m38 sf_m38 buf_ok 45 0)))
     = STOR_STATE_MFSPEC_COMPLETE \<and>
   fst (WriteSpecPart 2080 s_m38 fs_m38 sf_m38 (take 20 buf_ok) 20 0) = 20 \<and>
   fst (WriteBuffer sf_m38 fs_m38 (take 20 buf_ok) 20 0) = (20, 0) \<and>
   st_state (fst (snd (WriteSpecPart 2080 s_m38 fs_m38 sf_m38 (take 20 buf_ok) 20 0)))
     = STOR_STATE_MFSPEC_SIZE_KNOWN"
proof -
  have e: "GetEnd sf_m38 + 1 = 38" by code_simp
  obtain r s' fs' where w: "WriteSpecPart 2080 s_m38 fs_m38 sf_m38 buf_ok 45 0 = (r, s', fs')"
    by (metis prod.exhaust)
  have "fst (WriteSpecPart 2080 s_m38 fs_m38 sf_m38 buf_ok 45 0) = 45" by code_simp
  with w have r: "r = 45" by simp
  have h: "fst (WriteBuffer sf_m38 fs_m38 buf_ok 45 0) = (38, 7)" by code_simp
  then obtain fs1 where wb: "WriteBuffer sf_m38 fs_m38 buf_ok 45 0 = ((38, 7), fs1)"
    by (cases "WriteBuffer sf_m38 fs_m38 buf_ok 45 0") simp
  from WriteSpecPart_transitions [OF w _ wb] r e
  have c: "st_state s' = STOR_STATE_MFSPEC_COMPLETE" by simp
  obtain r2 s2 fs2 where w2:
    "WriteSpecPart 2080 s_m38 fs_m38 sf_m38 (take 20 buf_ok) 20 0 = (r2, s2, fs2)"
    by (metis prod.exhaust)
  have "fst (WriteSpecPart 2080 s_m38 fs_m38 sf_m38 (take 20 buf_ok) 20 0) = 20" by code_simp
  with w2 have r2: "r2 = 20" by simp
  have h2: "fst (WriteBuffer sf_m38 fs_m38 (take 20 buf_ok) 20 0) = (20, 0)" by code_simp
  then obtain fs3 where wb2:
    "WriteBuffer sf_m38 fs_m38 (take 20 buf_ok) 20 0 = ((20, 0), fs3)"
    by (cases "WriteBuffer sf_m38 fs_m38 (take 20 buf_ok) 20 0") simp
  from WriteSpecPart_transitions [OF w2 _ wb2] r2 e
  have k: "st_state s2 = STOR_STATE_MFSPEC_SIZE_KNOWN" by simp
  from w r h c w2 r2 h2 k show ?thesis by simp
qed

subsection \<open>C7: the single-file round trip\<close>

text \<open>
  Claim C7. In \<^verbatim>\<open>STOR_STATE_SINGLE_FILE\<close>, \<^verbatim>\<open>Write\<close> returns the count of \<^verbatim>\<open>pwrite\<close> as it is.
  A \<^verbatim>\<open>Write\<close> of the \<open>n\<close> bytes of a buffer at an offset succeeds when it returns \<open>n\<close>: all
  the bytes are written. The \<^verbatim>\<open>Read\<close> of \<open>n\<close> bytes at the same offset that follows, on the
  object and the disk the \<^verbatim>\<open>Write\<close> left, returns \<open>n\<close> and the bytes of the buffer.
\<close>

theorem single_file_round_trip:
  assumes "st_state s = STOR_STATE_SINGLE_FILE"
    and "nbyte = length buf"
    and "Write k s fs buf nbyte offset = (r, s', fs')"
    and "r = int nbyte"
  shows "Read s' fs' ht_size nbyte offset = Some (int nbyte, buf)"
proof -
  from assms(1,3) have pw: "os_pwrite fs (st_single_fd s) buf nbyte offset = (r, fs')" and s': "s' = s"
    by (auto simp: Write_SINGLE split: prod.splits)
  from os_pwrite_pread [OF pw assms(4,2)] assms(1) s' show ?thesis
    by (simp add: Read_SINGLE)
qed

theorem single_file_round_trip_witness:
  "st_state st_v = STOR_STATE_SINGLE_FILE \<and> fst (Write 2080 st_v fs_v ''abcd'' 4 8) = 4 \<and>
   Read (fst (snd (Write 2080 st_v fs_v ''abcd'' 4 8))) (snd (snd (Write 2080 st_v fs_v ''abcd'' 4 8)))
     0 4 8 = Some (4, ''abcd'')"
proof -
  obtain r s' fs' where w: "Write 2080 st_v fs_v ''abcd'' 4 8 = (r, s', fs')"
    by (metis prod.exhaust)
  have st: "st_state st_v = STOR_STATE_SINGLE_FILE" by (simp add: st_v_def)
  have "fst (Write 2080 st_v fs_v ''abcd'' 4 8) = 4" by code_simp
  with w have r: "r = int 4" by simp
  from single_file_round_trip [OF st _ w r, of 0]
  have "Read s' fs' 0 4 8 = Some (4, ''abcd'')" by simp
  with w r st show ?thesis by simp
qed

text \<open>
  A write that the host cuts short returns a smaller count, and the bytes read back are
  then not those of the buffer: on a host that takes two bytes of each write, the \<^verbatim>\<open>Write\<close> of
  \<open>abcd\<close> at offset \<open>8\<close> returns \<open>2\<close>, and the \<^verbatim>\<open>Read\<close> that follows returns the two bytes \<open>ab\<close>.
\<close>

lemma short_write_example:
  "fst (Write 2080 st_v fs_short ''abcd'' 4 8) = 2 \<and>
   Read (fst (snd (Write 2080 st_v fs_short ''abcd'' 4 8)))
     (snd (snd (Write 2080 st_v fs_short ''abcd'' 4 8))) 0 4 8 = Some (2, ''ab'')"
  by code_simp

subsection \<open>C8: the postponed reservation\<close>

text \<open>
  Claim C8. \<^verbatim>\<open>ResizeReserved(S)\<close> in \<^verbatim>\<open>STOR_STATE_INIT\<close> returns \<open>0\<close> and records \<open>S\<close>, whatever
  \<open>S\<close> is. When \<^verbatim>\<open>OpenSingleFile\<close> then succeeds, the state is \<^verbatim>\<open>STOR_STATE_SINGLE_FILE\<close> and the
  single file has at least \<open>S\<close> bytes (exactly \<open>S\<close>, unless \<open>S\<close> is \<open>-1\<close>, the mark of "nothing
  recorded"); so it is after a first write at offset \<open>0\<close> that does not start with the
  sentinel and succeeds. A write that takes the multi-file path (the first write, starting
  with the sentinel, or a later write) has the same result and leaves the same disk
  whatever was recorded, and the recorded value stays in the object: nothing is replayed.
  The constructor calls \<^verbatim>\<open>OpenSingleFile\<close> before any \<^verbatim>\<open>ResizeReserved\<close> can have run.
\<close>

theorem postponed_reserve:
  "(st_state s = STOR_STATE_INIT \<longrightarrow>
      ResizeReserved s fs S = (0, s\<lparr>st_reserved_size := S\<rparr>, fs)) \<and>
   (st_reserved_size s = S \<and> OpenSingleFile s fs = (r, s', fs') \<and> 0 \<le> r \<longrightarrow>
      st_state s' = STOR_STATE_SINGLE_FILE \<and> S \<le> file_size fs' (st_single_fd s') \<and>
      (S \<noteq> - 1 \<longrightarrow> file_size fs' (st_single_fd s') = S)) \<and>
   (st_state s = STOR_STATE_INIT \<and> st_reserved_size s = S \<and>
    \<not> strncmp_eq buf MULTIFILE_PATHNAME (length MULTIFILE_PATHNAME) \<and>
    Write k s fs buf nbyte 0 = (r, s', fs') \<and> 0 \<le> r \<longrightarrow>
      st_state s' = STOR_STATE_SINGLE_FILE \<and> S \<le> file_size fs' (st_single_fd s')) \<and>
   ((st_state s = STOR_STATE_INIT \<and>
       strncmp_eq buf MULTIFILE_PATHNAME (length MULTIFILE_PATHNAME)) \<or>
    st_state s = STOR_STATE_MFSPEC_SIZE_KNOWN \<or> st_state s = STOR_STATE_MFSPEC_COMPLETE \<longrightarrow>
      Write k (s\<lparr>st_reserved_size := S\<rparr>) fs buf nbyte offset
        = with_reserved S (Write k s fs buf nbyte offset))"
proof (intro conjI impI)
  assume "st_state s = STOR_STATE_INIT"
  then show "ResizeReserved s fs S = (0, s\<lparr>st_reserved_size := S\<rparr>, fs)"
    by (simp add: ResizeReserved_def)
next
  assume a: "st_reserved_size s = S \<and> OpenSingleFile s fs = (r, s', fs') \<and> 0 \<le> r"
  then have o: "OpenSingleFile s fs = (r, s', fs')" and r: "0 \<le> r" by simp_all
  from OpenSingleFile_replays [OF o r] a
  show "st_state s' = STOR_STATE_SINGLE_FILE" "S \<le> file_size fs' (st_single_fd s')"
    "S \<noteq> - 1 \<Longrightarrow> file_size fs' (st_single_fd s') = S"
    by simp_all
next
  assume a: "st_state s = STOR_STATE_INIT \<and> st_reserved_size s = S \<and>
    \<not> strncmp_eq buf MULTIFILE_PATHNAME (length MULTIFILE_PATHNAME) \<and>
    Write k s fs buf nbyte 0 = (r, s', fs') \<and> 0 \<le> r"
  obtain r1 s1 fs1 where o: "OpenSingleFile s fs = (r1, s1, fs1)"
    by (metis prod.exhaust)
  from a o have r1: "0 \<le> r1" and w: "Write k s1 fs1 buf nbyte 0 = (r, s', fs')"
    by (subst (asm) Write.simps; auto split: if_splits)+
  from OpenSingleFile_replays [OF o r1] a
  have st: "st_state s1 = STOR_STATE_SINGLE_FILE" and sz: "S \<le> file_size fs1 (st_single_fd s1)"
    by simp_all
  from w st have s': "s' = s1" and pw: "os_pwrite fs1 (st_single_fd s1) buf nbyte 0 = (r, fs')"
    by (auto simp: Write_SINGLE split: prod.splits)
  from os_pwrite_size [OF pw] sz s' st
  show "st_state s' = STOR_STATE_SINGLE_FILE" "S \<le> file_size fs' (st_single_fd s')"
    by simp_all
next
  assume "(st_state s = STOR_STATE_INIT \<and>
       strncmp_eq buf MULTIFILE_PATHNAME (length MULTIFILE_PATHNAME)) \<or>
    st_state s = STOR_STATE_MFSPEC_SIZE_KNOWN \<or> st_state s = STOR_STATE_MFSPEC_COMPLETE"
  then show "Write k (s\<lparr>st_reserved_size := S\<rparr>) fs buf nbyte offset
        = with_reserved S (Write k s fs buf nbyte offset)"
    by (rule Write_multifile_reserved)
qed

theorem postponed_reserve_witness:
  "st_state (st_init ''v'') = STOR_STATE_INIT \<and>
   fst (ResizeReserved (st_init ''v'') fs_empty 100) = 0 \<and>
   st_reserved_size s_reserved = 100 \<and> st_state s_reserved = STOR_STATE_INIT \<and>
   \<not> strncmp_eq ''ABCDEFGH'' MULTIFILE_PATHNAME (length MULTIFILE_PATHNAME) \<and>
   fst (Write 2080 s_reserved fs_empty ''ABCDEFGH'' 8 0) = 8 \<and>
   st_state (fst (snd (Write 2080 s_reserved fs_empty ''ABCDEFGH'' 8 0))) = STOR_STATE_SINGLE_FILE \<and>
   100 \<le> file_size (snd (snd (Write 2080 s_reserved fs_empty ''ABCDEFGH'' 8 0)))
            (st_single_fd (fst (snd (Write 2080 s_reserved fs_empty ''ABCDEFGH'' 8 0)))) \<and>
   fst (OpenSingleFile s_reserved fs_empty) = 0 \<and>
   file_size (snd (snd (OpenSingleFile s_reserved fs_empty)))
     (st_single_fd (fst (snd (OpenSingleFile s_reserved fs_empty)))) = 100 \<and>
   strncmp_eq buf_ok MULTIFILE_PATHNAME (length MULTIFILE_PATHNAME) \<and>
   Write 2080 ((st_init ''v'')\<lparr>st_reserved_size := 100\<rparr>) fs_empty buf_ok 45 0
     = with_reserved 100 (Write 2080 (st_init ''v'') fs_empty buf_ok 45 0) \<and>
   fst (Write 2080 (st_init ''v'') fs_empty buf_ok 45 0) = 45"
proof -
  have i: "st_state (st_init ''v'') = STOR_STATE_INIT" by (simp add: st_init_def)
  from postponed_reserve [where s = "st_init ''v''" and fs = fs_empty and S = 100] i
  have rr: "ResizeReserved (st_init ''v'') fs_empty 100
              = (0, (st_init ''v'')\<lparr>st_reserved_size := 100\<rparr>, fs_empty)"
    by blast
  then have sr: "s_reserved = (st_init ''v'')\<lparr>st_reserved_size := 100\<rparr>"
    by (simp add: s_reserved_def)
  have sri: "st_state s_reserved = STOR_STATE_INIT" and srs: "st_reserved_size s_reserved = 100"
    unfolding sr by (simp_all add: st_init_def)
  have ns: "\<not> strncmp_eq ''ABCDEFGH'' MULTIFILE_PATHNAME (length MULTIFILE_PATHNAME)"
    by code_simp
  have w8: "fst (Write 2080 s_reserved fs_empty ''ABCDEFGH'' 8 0) = 8"
    unfolding sr by code_simp
  obtain r s' fs' where w: "Write 2080 s_reserved fs_empty ''ABCDEFGH'' 8 0 = (r, s', fs')"
    by (metis prod.exhaust)
  with w8 have r: "0 \<le> r" by simp
  from postponed_reserve
    [where s = s_reserved and S = 100 and buf = "''ABCDEFGH''" and k = 2080 and fs = fs_empty
       and nbyte = 8 and r = r and s' = s' and fs' = fs']
    sri srs ns w r
  have single: "st_state s' = STOR_STATE_SINGLE_FILE \<and> 100 \<le> file_size fs' (st_single_fd s')"
    by blast
  have o0: "fst (OpenSingleFile s_reserved fs_empty) = 0"
    unfolding sr by code_simp
  obtain r1 s1 fs1 where o: "OpenSingleFile s_reserved fs_empty = (r1, s1, fs1)"
    by (metis prod.exhaust)
  with o0 have r1: "0 \<le> r1" by simp
  from postponed_reserve
    [where s = s_reserved and S = 100 and fs = fs_empty and r = r1 and s' = s1 and fs' = fs1]
    srs o r1
  have exact: "file_size fs1 (st_single_fd s1) = 100" by simp
  have m: "strncmp_eq buf_ok MULTIFILE_PATHNAME (length MULTIFILE_PATHNAME)" by code_simp
  from postponed_reserve
    [where s = "st_init ''v''" and S = 100 and buf = buf_ok and k = 2080 and fs = fs_empty
       and nbyte = 45 and offset = 0]
    i m
  have multi: "Write 2080 ((st_init ''v'')\<lparr>st_reserved_size := 100\<rparr>) fs_empty buf_ok 45 0
     = with_reserved 100 (Write 2080 (st_init ''v'') fs_empty buf_ok 45 0)"
    by blast
  have w45: "fst (Write 2080 (st_init ''v'') fs_empty buf_ok 45 0) = 45" by code_simp
  from i rr sri srs ns w8 w single o0 o exact m multi w45 show ?thesis by simp
qed

subsection \<open>C9: terminal states\<close>

text \<open>
  Claim C9. Once the state is \<^verbatim>\<open>STOR_STATE_SINGLE_FILE\<close> or \<^verbatim>\<open>STOR_STATE_MFSPEC_COMPLETE\<close>,
  no sequence of \<^verbatim>\<open>Write\<close>, \<^verbatim>\<open>Read\<close>, \<^verbatim>\<open>ResizeReserved\<close> and \<^verbatim>\<open>GetReservedSize\<close> calls changes
  it: after every sequence of calls that return, the state is the one before.
\<close>

theorem terminal_states_absorbing:
  "terminal (st_state s) \<Longrightarrow> run k cs (s, fs) = Some (s', fs') \<Longrightarrow> st_state s' = st_state s"
proof (induction cs arbitrary: s fs)
  case Nil
  then show ?case by simp
next
  case (Cons c cs)
  from Cons.prems(2) obtain s1 fs1 where st: "step k c (s, fs) = Some (s1, fs1)"
    and rn: "run k cs (s1, fs1) = Some (s', fs')"
    by (auto split: option.splits)
  from step_terminal [OF Cons.prems(1) st] have eq: "st_state s1 = st_state s" .
  with Cons.prems(1) have "terminal (st_state s1)" by simp
  from Cons.IH [OF this rn] eq show ?case by simp
qed

theorem terminal_states_absorbing_witness:
  "terminal (st_state (fst (Storage_new 2080 ''m'' fs_seed))) \<and>
   \<not> Option.is_none (run 2080 calls_ex (Storage_new 2080 ''m'' fs_seed)) \<and>
   st_state (fst (the (run 2080 calls_ex (Storage_new 2080 ''m'' fs_seed)))) = STOR_STATE_MFSPEC_COMPLETE"
proof -
  obtain s fs where w: "Storage_new 2080 ''m'' fs_seed = (s, fs)"
    by (metis prod.exhaust)
  have st: "st_state (fst (Storage_new 2080 ''m'' fs_seed)) = STOR_STATE_MFSPEC_COMPLETE"
    by code_simp
  with w have t: "terminal (st_state s)" by (simp add: terminal_def)
  have "\<not> Option.is_none (run 2080 calls_ex (Storage_new 2080 ''m'' fs_seed))"
    by code_simp
  with w obtain s' fs' where r: "run 2080 calls_ex (s, fs) = Some (s', fs')"
    by (auto simp: Option.is_none_def)
  from terminal_states_absorbing [OF t r] st w have "st_state s' = STOR_STATE_MFSPEC_COMPLETE"
    by simp
  with w r t st show ?thesis by (simp add: Option.is_none_def)
qed

subsection \<open>C10: \<^verbatim>\<open>OpenSingleFile\<close> and a failed open\<close>

text \<open>
  Claim C10. Every call of \<^verbatim>\<open>OpenSingleFile\<close> leaves the state \<^verbatim>\<open>STOR_STATE_SINGLE_FILE\<close>,
  whatever \<^verbatim>\<open>open\<close> returned. When the open fails, the call fails, \<^verbatim>\<open>single_fd_\<close> is \<open>-1\<close>,
  and every later \<^verbatim>\<open>Write\<close> and \<^verbatim>\<open>Read\<close> runs on that descriptor and fails with \<open>-1\<close>.
\<close>

theorem OpenSingleFile_sets_state:
  assumes "OpenSingleFile s fs = (r, s', fs')"
  shows "st_state s' = STOR_STATE_SINGLE_FILE \<and>
         (fst (os_open fs (st_os_pathname s)) < 0 \<longrightarrow>
            r = - 1 \<and> st_single_fd s' = - 1 \<and>
            (\<forall>k buf nbyte offset. Write k s' fs' buf nbyte offset = (- 1, s', fs')) \<and>
            (\<forall>ht_size nbyte offset. Read s' fs' ht_size nbyte offset = Some (- 1, [])))"
proof
  from assms show st: "st_state s' = STOR_STATE_SINGLE_FILE" by (rule OpenSingleFile_state)
  show "fst (os_open fs (st_os_pathname s)) < 0 \<longrightarrow>
            r = - 1 \<and> st_single_fd s' = - 1 \<and>
            (\<forall>k buf nbyte offset. Write k s' fs' buf nbyte offset = (- 1, s', fs')) \<and>
            (\<forall>ht_size nbyte offset. Read s' fs' ht_size nbyte offset = Some (- 1, []))"
  proof
    assume "fst (os_open fs (st_os_pathname s)) < 0"
    then have op: "os_open fs (st_os_pathname s) = (- 1, fs)" by (rule os_open_fail)
    with assms have res: "r = - 1 \<and> st_single_fd s' = - 1 \<and> fs' = fs"
      by (auto simp: OpenSingleFile_def ResizeReserved_def file_resize_bad Let_def split: if_splits)
    with st show "r = - 1 \<and> st_single_fd s' = - 1 \<and>
            (\<forall>k buf nbyte offset. Write k s' fs' buf nbyte offset = (- 1, s', fs')) \<and>
            (\<forall>ht_size nbyte offset. Read s' fs' ht_size nbyte offset = Some (- 1, []))"
      by (simp add: Write_SINGLE Read_SINGLE os_pwrite_bad os_pread_bad)
  qed
qed

theorem OpenSingleFile_sets_state_witness:
  "fst (os_open fs_dir (st_os_pathname (st_init ''d''))) < 0 \<and>
   st_state (fst (snd (OpenSingleFile (st_init ''d'') fs_dir))) = STOR_STATE_SINGLE_FILE \<and>
   st_single_fd (fst (snd (OpenSingleFile (st_init ''d'') fs_dir))) = - 1 \<and>
   fst (Write 2080 (fst (snd (OpenSingleFile (st_init ''d'') fs_dir)))
          (snd (snd (OpenSingleFile (st_init ''d'') fs_dir))) ''ab'' 2 0) = - 1"
proof -
  obtain r s' fs' where o: "OpenSingleFile (st_init ''d'') fs_dir = (r, s', fs')"
    by (metis prod.exhaust)
  have f: "fst (os_open fs_dir (st_os_pathname (st_init ''d''))) < 0"
    by (simp add: os_open_def fs_dir_def st_init_def)
  from OpenSingleFile_sets_state [OF o] f
  have "st_state s' = STOR_STATE_SINGLE_FILE \<and> st_single_fd s' = - 1 \<and>
        Write 2080 s' fs' ''ab'' 2 0 = (- 1, s', fs')"
    by blast
  with o f show ?thesis by simp
qed

end
